theory Spec2Isabelle
  imports Main "HOL-Library.Word" "HOL-Library.AList"
begin

unbundle bit_operations_syntax

section \<open>Bytes, slices and little-endian integers\<close>

text \<open>
  A Python \<^verbatim>\<open>bytes\<close> object is a list of 8-bit words. Python integers are
  unbounded: unsigned fields read from a buffer are \<open>nat\<close>, signed quantities
  (cluster numbers, file references handed to bit masks) are \<open>int\<close>. A decoded
  Python \<^verbatim>\<open>str\<close> is a list of Unicode code points; fixed ASCII labels are
  \<open>string\<close>.
\<close>

type_synonym byte = "8 word"
type_synonym bytes = "byte list"
type_synonym ustr = "nat list"

text \<open>\<^verbatim>\<open>data[i:j]\<close> for non-negative \<open>i\<close> and \<open>j\<close>: clipped at the end of the
  buffer, empty when \<open>j \<le> i\<close>.\<close>

definition slice :: "'a list \<Rightarrow> nat \<Rightarrow> nat \<Rightarrow> 'a list" where
  "slice xs i j = take (j - i) (drop i xs)"

text \<open>\<^verbatim>\<open>int.from_bytes(bs, 'little')\<close>; also the value of
  \<^verbatim>\<open>struct.unpack('<H' | '<I' | '<Q', bs)[0]\<close> when \<open>bs\<close> has the width of
  the format.\<close>

fun from_bytes_little :: "bytes \<Rightarrow> nat" where
  "from_bytes_little [] = 0"
| "from_bytes_little (b # bs) = unat b + 256 * from_bytes_little bs"

section \<open>constants.py\<close>

text \<open>\<^verbatim>\<open>parse_file_reference(ref)\<close>: entry number and sequence number.\<close>

definition parse_file_reference :: "int \<Rightarrow> int \<times> int" where
  "parse_file_reference ref =
     (let entry_number = ref AND 0x0000FFFFFFFFFFFF;
          sequence_number = (drop_bit 48 ref) AND 0xFFFF
      in (entry_number, sequence_number))"

section \<open>mft\_parser.py: data runs\<close>

record data_run =
  start_cluster :: int
  run_length :: nat
  sparse :: bool

text \<open>The body of the \<^verbatim>\<open>while\<close> loop of \<^verbatim>\<open>_parse_data_runs\<close> at one
  \<open>offset\<close> below \<open>len(data)\<close>: \<open>None\<close> is a \<^verbatim>\<open>break\<close>, otherwise the run
  appended, the next offset and the new \<^verbatim>\<open>current_cluster\<close>.\<close>

definition data_run_at :: "bytes \<Rightarrow> nat \<Rightarrow> int \<Rightarrow> (data_run \<times> nat \<times> int) option" where
  "data_run_at data offset current_cluster =
     (let header = data ! offset in
      if header = 0 then None
      else
        let length_size = unat (header AND 0x0F);
            offset_size = unat ((drop_bit 4 header) AND 0x0F)
        in
        if length_size = 0 then None
        else if offset + 1 + length_size + offset_size > length data then None
        else
          let length_bytes = slice data (offset + 1) (offset + 1 + length_size);
              len = from_bytes_little length_bytes
          in
          if offset_size > 0 then
            let offset_bytes = slice data (offset + 1 + length_size)
                                 (offset + 1 + length_size + offset_size);
                run_offset = int (from_bytes_little offset_bytes);
                run_offset = (if last offset_bytes AND 0x80 \<noteq> 0
                              then run_offset - 2 ^ (offset_size * 8) else run_offset);
                current_cluster = current_cluster + run_offset
            in Some (\<lparr>start_cluster = current_cluster, run_length = len, sparse = False\<rparr>,
                     offset + 1 + length_size + offset_size, current_cluster)
          else
            Some (\<lparr>start_cluster = 0, run_length = len, sparse = True\<rparr>,
                  offset + 1 + length_size + offset_size, current_cluster))"

lemma data_run_at_advances:
  "data_run_at data offset cur = Some (r, offset', cur') \<Longrightarrow> offset < offset' \<and> offset' \<le> length data"
  by (auto simp: data_run_at_def Let_def split: if_splits)

function parse_data_runs_loop :: "bytes \<Rightarrow> nat \<Rightarrow> int \<Rightarrow> data_run list \<Rightarrow> data_run list" where
  "parse_data_runs_loop data offset current_cluster runs =
     (if offset < length data then
        (case data_run_at data offset current_cluster of
           None \<Rightarrow> runs
         | Some (r, offset', current_cluster') \<Rightarrow>
             parse_data_runs_loop data offset' current_cluster' (runs @ [r]))
      else runs)"
  by pat_completeness auto
termination
  by (relation "measure (\<lambda>(data, offset, cur, runs). length data - offset)")
     (auto dest: data_run_at_advances)

declare parse_data_runs_loop.simps [simp del]

definition parse_data_runs :: "bytes \<Rightarrow> data_run list" where
  "parse_data_runs data = parse_data_runs_loop data 0 0 []"

section \<open>UTF-16LE decoding\<close>

text \<open>
  \<^verbatim>\<open>bytes.decode('utf-16-le', errors=...)\<close>. A code unit outside the
  surrogate range is a code point; a high surrogate followed by a low one is one
  supplementary code point. A lone low surrogate and a high surrogate followed by
  another unit are errors of two bytes; a high surrogate with fewer than two bytes after
  it and a trailing odd byte are errors that reach the end of the input.
  \<open>Strict\<close> raises (\<open>None\<close>), \<open>Ignore\<close> drops the bytes of the error and
  \<open>Replace\<close> puts U+FFFD in their place.
\<close>

datatype errors_mode = Strict | Ignore | Replace

definition on_error :: "errors_mode \<Rightarrow> ustr option \<Rightarrow> ustr option" where
  "on_error m rest =
     (case m of Strict \<Rightarrow> None | Ignore \<Rightarrow> rest | Replace \<Rightarrow> map_option ((#) 0xFFFD) rest)"

fun decode_utf16_le :: "errors_mode \<Rightarrow> bytes \<Rightarrow> ustr option" where
  "decode_utf16_le m [] = Some []"
| "decode_utf16_le m [b] = on_error m (Some [])"
| "decode_utf16_le m (lo # hi # rest) =
     (let ch = unat lo + 256 * unat hi in
      if ch < 0xD800 \<or> 0xDFFF < ch then map_option ((#) ch) (decode_utf16_le m rest)
      else if 0xDBFF < ch then on_error m (decode_utf16_le m rest)
      else
        (case rest of
           lo2 # hi2 # rest2 \<Rightarrow>
             (let ch2 = unat lo2 + 256 * unat hi2 in
              if 0xDC00 \<le> ch2 \<and> ch2 \<le> 0xDFFF
              then map_option ((#) (0x10000 + (ch - 0xD800) * 0x400 + (ch2 - 0xDC00)))
                     (decode_utf16_le m rest2)
              else on_error m (decode_utf16_le m rest))
         | _ \<Rightarrow> on_error m (Some [])))"

text \<open>The pattern \<^verbatim>\<open>try: s = b.decode('utf-16-le')  except: s = ''\<close>.\<close>

definition decode_or_empty :: "bytes \<Rightarrow> ustr" where
  "decode_or_empty bs = (case decode_utf16_le Strict bs of None \<Rightarrow> [] | Some s \<Rightarrow> s)"

section \<open>constants.py: timestamps\<close>

text \<open>
  \<^verbatim>\<open>filetime_to_datetime\<close> divides by 10\,000\,000 in floating point and adds
  the result to the NTFS epoch; \<^verbatim>\<open>format_timestamp\<close> prints the date with
  \<^verbatim>\<open>strftime\<close>. Both library steps are parameters of the model: \<open>to_kst\<close>
  is the date arithmetic (\<open>None\<close> where it raises \<^verbatim>\<open>OverflowError\<close>,
  \<^verbatim>\<open>OSError\<close> or \<^verbatim>\<open>ValueError\<close>), \<open>strftime\<close> the printing.
\<close>

record 'dt calendar =
  to_kst :: "nat \<Rightarrow> 'dt option"
  strftime :: "'dt \<Rightarrow> string"

definition filetime_to_datetime :: "'dt calendar \<Rightarrow> nat \<Rightarrow> 'dt option" where
  "filetime_to_datetime cal filetime = (if filetime = 0 then None else to_kst cal filetime)"

definition format_timestamp :: "'dt calendar \<Rightarrow> 'dt option \<Rightarrow> string" where
  "format_timestamp cal dt = (case dt of None \<Rightarrow> '''' | Some d \<Rightarrow> strftime cal d)"

section \<open>mft\_parser.py: attributes\<close>

text \<open>
  An attribute is a Python dict. Its keys are set in groups, each group by one
  function and all at once, so the model has one optional sub-record per group:
  the non-resident header, the \<^verbatim>\<open>$STANDARD_INFORMATION\<close> fields and the
  \<^verbatim>\<open>$FILE_NAME\<close> fields. A key that the source may leave unset inside its
  group is an \<open>option\<close> of its own.
\<close>

record non_resident_info =
  nr_start_vcn :: nat
  nr_end_vcn :: nat
  nr_run_offset :: nat
  nr_compression_unit :: nat
  nr_allocated_size :: nat
  nr_real_size :: nat
  nr_initialized_size :: nat
  nr_data_runs :: "data_run list option"

record standard_info =
  si_created :: nat
  si_modified :: nat
  si_mft_modified :: nat
  si_accessed :: nat
  si_flags :: nat

record filename_info =
  fn_parent_ref :: nat
  fn_created :: nat
  fn_modified :: nat
  fn_mft_modified :: nat
  fn_accessed :: nat
  fn_allocated_size :: nat
  fn_real_size :: nat
  fn_flags :: nat
  fn_namespace :: nat
  fn_filename :: "ustr option"

record attribute =
  a_type :: nat
  a_length :: nat
  a_non_resident :: bool
  a_name_length :: nat
  a_name_offset :: nat
  a_flags :: nat
  a_id :: nat
  a_name :: "ustr option"
  a_data :: "bytes option"
  a_nonres :: "non_resident_info option"
  a_std :: "standard_info option"
  a_fn :: "filename_info option"

definition parse_resident_attr :: "attribute \<Rightarrow> bytes \<Rightarrow> attribute" where
  "parse_resident_attr attr data =
     (if length data < 24 then attr
      else
        let content_size = from_bytes_little (slice data 16 20);
            content_offset = from_bytes_little (slice data 20 22)
        in
        if content_offset + content_size \<le> length data
        then attr\<lparr>a_data := Some (slice data content_offset (content_offset + content_size))\<rparr>
        else attr\<lparr>a_data := Some []\<rparr>)"

definition parse_non_resident_attr :: "attribute \<Rightarrow> bytes \<Rightarrow> attribute" where
  "parse_non_resident_attr attr data =
     (if length data < 48 then attr
      else
        let start = from_bytes_little (slice data 16 24);
            allocated = from_bytes_little (slice data 40 48);
            info = \<lparr>nr_start_vcn = start,
                    nr_end_vcn = from_bytes_little (slice data 24 32),
                    nr_run_offset = from_bytes_little (slice data 32 34),
                    nr_compression_unit = from_bytes_little (slice data 34 36),
                    nr_allocated_size = allocated,
                    nr_real_size = allocated,
                    nr_initialized_size = allocated,
                    nr_data_runs = None\<rparr>;
            info = (if start = 0 \<and> length data \<ge> 64
                    then info\<lparr>nr_real_size := from_bytes_little (slice data 48 56),
                              nr_initialized_size := from_bytes_little (slice data 56 64)\<rparr>
                    else info\<lparr>nr_real_size := allocated, nr_initialized_size := allocated\<rparr>);
            info = (if nr_run_offset info < length data
                    then info\<lparr>nr_data_runs :=
                                Some (parse_data_runs (drop (nr_run_offset info) data))\<rparr>
                    else info)
        in attr\<lparr>a_nonres := Some info\<rparr>)"

definition attr_data_or_empty :: "attribute \<Rightarrow> bytes" where
  "attr_data_or_empty attr = (case a_data attr of None \<Rightarrow> [] | Some d \<Rightarrow> d)"

definition parse_standard_info :: "attribute \<Rightarrow> attribute" where
  "parse_standard_info attr =
     (let data = attr_data_or_empty attr in
      if length data < 48 then attr
      else attr\<lparr>a_std := Some
             \<lparr>si_created = from_bytes_little (slice data 0 8),
              si_modified = from_bytes_little (slice data 8 16),
              si_mft_modified = from_bytes_little (slice data 16 24),
              si_accessed = from_bytes_little (slice data 24 32),
              si_flags = from_bytes_little (slice data 32 36)\<rparr>\<rparr>)"

definition parse_filename :: "attribute \<Rightarrow> attribute" where
  "parse_filename attr =
     (let data = attr_data_or_empty attr in
      if length data < 66 then attr
      else
        let name_length = unat (data ! 64) in
        attr\<lparr>a_fn := Some
          \<lparr>fn_parent_ref = from_bytes_little (slice data 0 8),
           fn_created = from_bytes_little (slice data 8 16),
           fn_modified = from_bytes_little (slice data 16 24),
           fn_mft_modified = from_bytes_little (slice data 24 32),
           fn_accessed = from_bytes_little (slice data 32 40),
           fn_allocated_size = from_bytes_little (slice data 40 48),
           fn_real_size = from_bytes_little (slice data 48 56),
           fn_flags = from_bytes_little (slice data 56 60),
           fn_namespace = unat (data ! 65),
           fn_filename =
             (if length data \<ge> 66 + name_length * 2
              then Some (decode_or_empty (slice data 66 (66 + name_length * 2)))
              else None)\<rparr>\<rparr>)"

definition STANDARD_INFORMATION :: nat where "STANDARD_INFORMATION = 0x10"
definition FILE_NAME :: nat where "FILE_NAME = 0x30"
definition DATA :: nat where "DATA = 0x80"

definition parse_attribute :: "nat \<Rightarrow> bytes \<Rightarrow> attribute option" where
  "parse_attribute attr_type data =
     (if length data < 16 then None
      else
        let attr = \<lparr>a_type = attr_type,
                    a_length = length data,
                    a_non_resident = (data ! 8 \<noteq> 0),
                    a_name_length = unat (data ! 9),
                    a_name_offset = from_bytes_little (slice data 10 12),
                    a_flags = from_bytes_little (slice data 12 14),
                    a_id = from_bytes_little (slice data 14 16),
                    a_name = None, a_data = None, a_nonres = None, a_std = None, a_fn = None\<rparr>;
            attr =
              (if a_name_length attr > 0 then
                 let name_start = a_name_offset attr;
                     name_end = name_start + a_name_length attr * 2
                 in if name_end \<le> length data
                    then attr\<lparr>a_name := Some (decode_or_empty (slice data name_start name_end))\<rparr>
                    else attr
               else attr\<lparr>a_name := Some []\<rparr>);
            attr = (if a_non_resident attr then parse_non_resident_attr attr data
                    else parse_resident_attr attr data);
            attr = (if attr_type = STANDARD_INFORMATION then parse_standard_info attr
                    else if attr_type = FILE_NAME then parse_filename attr
                    else attr)
        in Some attr)"

text \<open>The body of the loop of \<^verbatim>\<open>_parse_attributes\<close> at one offset with
  \<open>offset + 4 \<le> len(data)\<close>: \<open>None\<close> is a \<^verbatim>\<open>break\<close>, otherwise the
  attribute to append (if any) and the length to advance by.\<close>

definition attribute_at :: "bytes \<Rightarrow> nat \<Rightarrow> (attribute option \<times> nat) option" where
  "attribute_at data offset =
     (let attr_type = from_bytes_little (slice data offset (offset + 4)) in
      if attr_type = 0xFFFFFFFF then None
      else if offset + 8 > length data then None
      else
        let attr_length = from_bytes_little (slice data (offset + 4) (offset + 8)) in
        if attr_length = 0 \<or> attr_length > length data - offset then None
        else Some (parse_attribute attr_type (slice data offset (offset + attr_length)),
                   attr_length))"

lemma attribute_at_advances:
  "attribute_at data offset = Some (a, n) \<Longrightarrow> 0 < n \<and> n \<le> length data - offset"
  by (auto simp: attribute_at_def Let_def split: if_splits)

function parse_attributes_loop :: "bytes \<Rightarrow> nat \<Rightarrow> nat \<Rightarrow> attribute list \<Rightarrow> attribute list" where
  "parse_attributes_loop data offset max_offset attributes =
     (if offset + 4 \<le> length data \<and> offset < max_offset then
        (case attribute_at data offset of
           None \<Rightarrow> attributes
         | Some (attr, attr_length) \<Rightarrow>
             parse_attributes_loop data (offset + attr_length) max_offset
               (case attr of None \<Rightarrow> attributes | Some a \<Rightarrow> attributes @ [a]))
      else attributes)"
  by pat_completeness auto
termination
  by (relation "measure (\<lambda>(data, offset, max_offset, attributes). length data - offset)")
     (auto dest: attribute_at_advances)

declare parse_attributes_loop.simps [simp del]

section \<open>mft\_parser.py: MFTEntry\<close>

record mft_entry =
  e_data :: bytes
  e_entry_number :: int
  e_attributes :: "attribute list"
  e_is_valid :: bool
  e_flags :: nat
  e_sequence :: nat

text \<open>\<^verbatim>\<open>MFTEntry(data, entry_number)\<close>\<close>

definition MFTEntry :: "bytes \<Rightarrow> int \<Rightarrow> mft_entry" where
  "MFTEntry data entry_number =
     \<lparr>e_data = data, e_entry_number = entry_number, e_attributes = [],
      e_is_valid = False, e_flags = 0, e_sequence = 0\<rparr>"

definition MFT_ENTRY_SIZE :: nat where "MFT_ENTRY_SIZE = 1024"
definition MFT_SIGNATURE :: bytes where "MFT_SIGNATURE = [0x46, 0x49, 0x4C, 0x45]"
definition MFT_SIGNATURE_BAD :: bytes where "MFT_SIGNATURE_BAD = [0x42, 0x41, 0x41, 0x44]"

text \<open>One round of the loop of \<^verbatim>\<open>_apply_fixup\<close>; the slice assignment
  \<^verbatim>\<open>data[sector_end:sector_end + 2] = fixup_value\<close> on the bytearray.\<close>

definition fixup_step :: "nat \<Rightarrow> bytes \<Rightarrow> nat \<Rightarrow> bytes" where
  "fixup_step offset data i =
     (let fixup_value = slice data (offset + i * 2) (offset + i * 2 + 2);
          sector_end = i * 512 - 2
      in if sector_end + 2 \<le> length data
         then take sector_end data @ fixup_value @ drop (sector_end + 2) data
         else data)"

definition apply_fixup :: "bytes \<Rightarrow> nat \<Rightarrow> nat \<Rightarrow> bytes" where
  "apply_fixup data offset count = foldl (fixup_step offset) data [1..<count]"

definition parse_attributes :: "mft_entry \<Rightarrow> nat \<Rightarrow> nat \<Rightarrow> mft_entry" where
  "parse_attributes e start_offset max_offset =
     e\<lparr>e_attributes := parse_attributes_loop (e_data e) start_offset max_offset (e_attributes e)\<rparr>"

text \<open>\<^verbatim>\<open>MFTEntry.parse\<close>: the returned flag and the entry as the call leaves it.\<close>

definition parse :: "mft_entry \<Rightarrow> bool \<times> mft_entry" where
  "parse e =
     (if length (e_data e) < 48 then (False, e)
      else
        let signature = slice (e_data e) 0 4 in
        if signature \<notin> set [MFT_SIGNATURE, MFT_SIGNATURE_BAD] then (False, e)
        else if signature = MFT_SIGNATURE_BAD then (False, e)
        else
          let fixup_offset = from_bytes_little (slice (e_data e) 4 6);
              fixup_count = from_bytes_little (slice (e_data e) 6 8);
              e = (if fixup_count > 0 \<and> fixup_offset + fixup_count * 2 \<le> length (e_data e)
                   then e\<lparr>e_data := apply_fixup (e_data e) fixup_offset fixup_count\<rparr>
                   else e);
              e = e\<lparr>e_sequence := from_bytes_little (slice (e_data e) 16 18)\<rparr>;
              e = e\<lparr>e_flags := from_bytes_little (slice (e_data e) 22 24)\<rparr>;
              attr_offset = from_bytes_little (slice (e_data e) 20 22);
              used_size = from_bytes_little (slice (e_data e) 24 28);
              e = parse_attributes e attr_offset used_size
          in (True, e\<lparr>e_is_valid := True\<rparr>))"

section \<open>mft\_parser.py: decoded records\<close>

record mft_record =
  mr_entry_number :: int
  mr_sequence_number :: nat
  mr_flags :: nat
  mr_in_use :: bool
  mr_is_directory :: bool
  mr_si_created :: string
  mr_si_modified :: string
  mr_si_mft_modified :: string
  mr_si_accessed :: string
  mr_si_flags :: nat
  mr_filename :: ustr
  mr_parent_ref :: nat
  mr_fn_created :: string
  mr_fn_modified :: string
  mr_fn_mft_modified :: string
  mr_fn_accessed :: string
  mr_fn_flags :: nat
  mr_fn_allocated_size :: nat
  mr_fn_real_size :: nat
  mr_data_size :: nat
  mr_is_resident :: bool
  mr_full_path :: ustr

text \<open>\<^verbatim>\<open>MFTRecord(entry_number=..., sequence_number=..., flags=..., in_use=...,
  is_directory=...)\<close> with the defaults of the dataclass.\<close>

definition MFTRecord :: "int \<Rightarrow> nat \<Rightarrow> nat \<Rightarrow> bool \<Rightarrow> bool \<Rightarrow> mft_record" where
  "MFTRecord entry_number sequence_number flags in_use is_directory =
     \<lparr>mr_entry_number = entry_number, mr_sequence_number = sequence_number, mr_flags = flags,
      mr_in_use = in_use, mr_is_directory = is_directory,
      mr_si_created = '''', mr_si_modified = '''', mr_si_mft_modified = '''',
      mr_si_accessed = '''', mr_si_flags = 0,
      mr_filename = [], mr_parent_ref = 0,
      mr_fn_created = '''', mr_fn_modified = '''', mr_fn_mft_modified = '''',
      mr_fn_accessed = '''', mr_fn_flags = 0, mr_fn_allocated_size = 0, mr_fn_real_size = 0,
      mr_data_size = 0, mr_is_resident = True, mr_full_path = []\<rparr>"

text \<open>\<^verbatim>\<open>attr.get(key, default)\<close> for the keys of the three groups.\<close>

definition std_get :: "(standard_info \<Rightarrow> nat) \<Rightarrow> attribute \<Rightarrow> nat" where
  "std_get field attr = (case a_std attr of None \<Rightarrow> 0 | Some s \<Rightarrow> field s)"

definition fn_get :: "(filename_info \<Rightarrow> nat) \<Rightarrow> attribute \<Rightarrow> nat" where
  "fn_get field attr = (case a_fn attr of None \<Rightarrow> 0 | Some f \<Rightarrow> field f)"

definition get_filename :: "attribute \<Rightarrow> ustr" where
  "get_filename attr =
     (case a_fn attr of None \<Rightarrow> [] | Some f \<Rightarrow> (case fn_filename f of None \<Rightarrow> [] | Some s \<Rightarrow> s))"

definition get_name :: "attribute \<Rightarrow> ustr" where
  "get_name attr = (case a_name attr of None \<Rightarrow> [] | Some s \<Rightarrow> s)"

definition get_real_size :: "attribute \<Rightarrow> nat" where
  "get_real_size attr = (case a_nonres attr of None \<Rightarrow> 0 | Some n \<Rightarrow> nr_real_size n)"

definition POSIX :: nat where "POSIX = 0"
definition WIN32 :: nat where "WIN32 = 1"
definition DOS :: nat where "DOS = 2"
definition WIN32_AND_DOS :: nat where "WIN32_AND_DOS = 3"

text \<open>The loop of \<^verbatim>\<open>to_record\<close> that picks \<^verbatim>\<open>best_filename\<close>, over the
  attributes still to visit; returning without recursion is the \<^verbatim>\<open>break\<close>.\<close>

fun best_filename_loop :: "attribute list \<Rightarrow> attribute option \<Rightarrow> attribute option" where
  "best_filename_loop [] best_filename = best_filename"
| "best_filename_loop (attr # rest) best_filename =
     (if a_type attr = FILE_NAME then
        let namespace = fn_get fn_namespace attr in
        if namespace \<in> set [WIN32, WIN32_AND_DOS] then Some attr
        else if namespace = POSIX \<and> best_filename = None
          then best_filename_loop rest (Some attr)
        else if best_filename = None
          then best_filename_loop rest (Some attr)
        else best_filename_loop rest best_filename
      else best_filename_loop rest best_filename)"

definition timestamp_of :: "'dt calendar \<Rightarrow> nat \<Rightarrow> string" where
  "timestamp_of cal filetime = format_timestamp cal (filetime_to_datetime cal filetime)"

definition to_record :: "'dt calendar \<Rightarrow> mft_entry \<Rightarrow> mft_record option" where
  "to_record cal e =
     (if \<not> e_is_valid e then None
      else
        let record = MFTRecord (e_entry_number e) (e_sequence e) (e_flags e)
                       (e_flags e AND 0x0001 \<noteq> 0) (e_flags e AND 0x0002 \<noteq> 0);
            record =
              (case find (\<lambda>attr. a_type attr = STANDARD_INFORMATION) (e_attributes e) of
                 None \<Rightarrow> record
               | Some attr \<Rightarrow> record
                   \<lparr>mr_si_created := timestamp_of cal (std_get si_created attr),
                    mr_si_modified := timestamp_of cal (std_get si_modified attr),
                    mr_si_mft_modified := timestamp_of cal (std_get si_mft_modified attr),
                    mr_si_accessed := timestamp_of cal (std_get si_accessed attr),
                    mr_si_flags := std_get si_flags attr\<rparr>);
            record =
              (case best_filename_loop (e_attributes e) None of
                 None \<Rightarrow> record
               | Some best_filename \<Rightarrow> record
                   \<lparr>mr_filename := get_filename best_filename,
                    mr_parent_ref := fn_get fn_parent_ref best_filename,
                    mr_fn_created := timestamp_of cal (fn_get fn_created best_filename),
                    mr_fn_modified := timestamp_of cal (fn_get fn_modified best_filename),
                    mr_fn_mft_modified := timestamp_of cal (fn_get fn_mft_modified best_filename),
                    mr_fn_accessed := timestamp_of cal (fn_get fn_accessed best_filename),
                    mr_fn_flags := fn_get fn_flags best_filename,
                    mr_fn_allocated_size := fn_get fn_allocated_size best_filename,
                    mr_fn_real_size := fn_get fn_real_size best_filename\<rparr>);
            record =
              (case find (\<lambda>attr. a_type attr = DATA \<and> get_name attr = []) (e_attributes e) of
                 None \<Rightarrow> record
               | Some attr \<Rightarrow> record
                   \<lparr>mr_is_resident := \<not> a_non_resident attr,
                    mr_data_size := (if a_non_resident attr then get_real_size attr
                                     else length (attr_data_or_empty attr))\<rparr>)
        in Some record)"

section \<open>mft\_parser.py: MFTParser.build\_path\_cache\<close>

text \<open>
  The first pass over the file. Every \<^verbatim>\<open>MFTParser\<close> of the repository is built
  with the default \<^verbatim>\<open>entry_size = MFT_ENTRY_SIZE\<close>. The file is the list of the
  bytes not yet read; \<^verbatim>\<open>parent_map\<close> and \<^verbatim>\<open>name_map\<close> are dicts in
  insertion order.
\<close>

function first_pass ::
  "'dt calendar \<Rightarrow> bytes \<Rightarrow> int \<Rightarrow> (int \<times> int) list \<Rightarrow> (int \<times> ustr) list
     \<Rightarrow> (int \<times> int) list \<times> (int \<times> ustr) list" where
  "first_pass cal f entry_number parent_map name_map =
     (if length (take MFT_ENTRY_SIZE f) < MFT_ENTRY_SIZE then (parent_map, name_map)
      else
        (case parse (MFTEntry (take MFT_ENTRY_SIZE f) entry_number) of
           (True, entry) \<Rightarrow>
             (case to_record cal entry of
                Some record \<Rightarrow>
                  if mr_in_use record then
                    first_pass cal (drop MFT_ENTRY_SIZE f) (entry_number + 1)
                      (AList.update entry_number
                         (fst (parse_file_reference (int (mr_parent_ref record)))) parent_map)
                      (AList.update entry_number (mr_filename record) name_map)
                  else first_pass cal (drop MFT_ENTRY_SIZE f) (entry_number + 1) parent_map name_map
              | None \<Rightarrow>
                  first_pass cal (drop MFT_ENTRY_SIZE f) (entry_number + 1) parent_map name_map)
         | (False, entry) \<Rightarrow>
             first_pass cal (drop MFT_ENTRY_SIZE f) (entry_number + 1) parent_map name_map))"
  by pat_completeness auto
termination
  by (relation "measure (\<lambda>(cal, f, entry_number, parent_map, name_map). length f)")
     (auto simp: MFT_ENTRY_SIZE_def)

declare first_pass.simps [simp del]

text \<open>The inner function \<^verbatim>\<open>get_path\<close>: the path returned and the path cache as
  the call leaves it. The backslash is code point 92.\<close>

function get_path ::
  "(int \<times> ustr) list \<Rightarrow> (int \<times> int) list \<Rightarrow> int \<Rightarrow> int set \<Rightarrow> (int \<rightharpoonup> ustr)
     \<Rightarrow> ustr \<times> (int \<rightharpoonup> ustr)" where
  "get_path name_map parent_map entry_num visited path_cache =
     (case path_cache entry_num of
        Some cached \<Rightarrow> (cached, path_cache)
      | None \<Rightarrow>
          (case map_of name_map entry_num of
             None \<Rightarrow> ([], path_cache)
           | Some name \<Rightarrow>
               if entry_num \<in> visited then ([], path_cache)
               else
                 let parent = (case map_of parent_map entry_num of None \<Rightarrow> 0 | Some p \<Rightarrow> p) in
                 if entry_num = 5 then ([92], path_cache(entry_num \<mapsto> [92]))
                 else if parent = 5 \<or> parent = entry_num
                   then (92 # name, path_cache(entry_num \<mapsto> 92 # name))
                 else
                   (case get_path name_map parent_map parent (insert entry_num visited) path_cache of
                      (parent_path, path_cache') \<Rightarrow>
                        let path = (if parent_path \<noteq> [] then parent_path @ [92] @ name
                                    else 92 # name)
                        in (path, path_cache'(entry_num \<mapsto> path)))))"
  by pat_completeness auto
termination
proof (relation "measure (\<lambda>(name_map, parent_map, entry_num, visited, path_cache).
                   card (fst ` set name_map - visited))", goal_cases)
  case 1
  show ?case by simp
next
  case (2 name_map parent_map entry_num visited path_cache name parent)
  from 2 have "entry_num \<in> fst ` set name_map - visited"
    by (auto dest!: map_of_SomeD simp: image_iff intro: bexI [of _ "(entry_num, name)"])
  then have "card (fst ` set name_map - visited - {entry_num}) < card (fst ` set name_map - visited)"
    by (intro card_Diff1_less) auto
  moreover have "fst ` set name_map - insert entry_num visited = fst ` set name_map - visited - {entry_num}"
    by auto
  ultimately show ?case by simp
qed

declare get_path.simps [simp del]

definition build_path_cache :: "'dt calendar \<Rightarrow> bytes \<Rightarrow> (int \<rightharpoonup> ustr) \<Rightarrow> (int \<rightharpoonup> ustr)" where
  "build_path_cache cal f path_cache =
     (case first_pass cal f 0 [] [] of
        (parent_map, name_map) \<Rightarrow>
          foldl (\<lambda>cache entry_num. snd (get_path name_map parent_map entry_num {} cache))
            path_cache (map fst name_map))"

section \<open>image\_handler.py: image and partition\<close>

text \<open>Exceptions that the modelled code can raise.\<close>

datatype py_error = StructError | IndexError | OSError | ValueError

text \<open>
  A raw image is the list of its bytes together with the largest byte offset that the
  file system of the platform lets a handle of the file seek to.
  \<^verbatim>\<open>ImageHandler.read(offset, size)\<close> seeks and reads. The seek raises
  \<^verbatim>\<open>ValueError\<close> for an offset that does not fit a signed 64-bit integer and
  \<^verbatim>\<open>OSError\<close> for a negative offset or one beyond what the file system
  accepts; a read that reaches the end of the file returns the bytes that are there.
\<close>

record image_file =
  im_data :: bytes
  im_seek_max :: nat

definition seek :: "image_file \<Rightarrow> int \<Rightarrow> py_error + nat" where
  "seek img offset =
     (if offset < - (2 ^ 63) \<or> 2 ^ 63 \<le> offset then Inl ValueError
      else if offset < 0 \<or> int (im_seek_max img) < offset then Inl OSError
      else Inr (nat offset))"

definition image_read :: "image_file \<Rightarrow> int \<Rightarrow> nat \<Rightarrow> py_error + bytes" where
  "image_read img offset n =
     (case seek img offset of
        Inl err \<Rightarrow> Inl err
      | Inr position \<Rightarrow> Inr (take n (drop position (im_data img))))"

text \<open>\<^verbatim>\<open>struct.unpack(fmt, bs)[0]\<close> for the unsigned little-endian formats of
  \<open>n\<close> bytes, and for the signed byte \<^verbatim>\<open>'<b'\<close>; \<^verbatim>\<open>bs[i]\<close>.\<close>

definition unpack :: "nat \<Rightarrow> bytes \<Rightarrow> py_error + nat" where
  "unpack n bs = (if length bs = n then Inr (from_bytes_little bs) else Inl StructError)"

definition unpack_signed_byte :: "bytes \<Rightarrow> py_error + int" where
  "unpack_signed_byte bs = (case bs of [b] \<Rightarrow> Inr (sint b) | _ \<Rightarrow> Inl StructError)"

definition byte_at :: "bytes \<Rightarrow> nat \<Rightarrow> py_error + nat" where
  "byte_at bs i = (if i < length bs then Inr (unat (bs ! i)) else Inl IndexError)"

record partition =
  p_offset :: int
  p_bytes_per_sector :: nat
  p_sectors_per_cluster :: nat
  p_cluster_size :: nat
  p_mft_offset :: int
  p_mft_entry_size :: nat

text \<open>\<^verbatim>\<open>NTFSPartition(image, offset)\<close>; the image itself is passed along with the
  partition.\<close>

definition NTFSPartition :: "int \<Rightarrow> partition" where
  "NTFSPartition offset =
     \<lparr>p_offset = offset, p_bytes_per_sector = 512, p_sectors_per_cluster = 8,
      p_cluster_size = 4096, p_mft_offset = 0, p_mft_entry_size = 1024\<rparr>"

definition NTFS_MAGIC :: bytes where
  "NTFS_MAGIC = [0x4E, 0x54, 0x46, 0x53, 0x20, 0x20, 0x20, 0x20]"

text \<open>\<^verbatim>\<open>NTFSPartition.parse_boot_sector\<close>: the returned flag and the partition as
  the call leaves it, or the exception.\<close>

definition parse_boot_sector :: "image_file \<Rightarrow> partition \<Rightarrow> py_error + (bool \<times> partition)" where
  "parse_boot_sector img p =
     (case image_read img (p_offset p) 512 of
        Inl err \<Rightarrow> Inl err
      | Inr data \<Rightarrow>
          if slice data 3 11 \<noteq> NTFS_MAGIC then Inr (False, p)
          else
            (case unpack 2 (slice data 0x0B 0x0D) of
               Inl err \<Rightarrow> Inl err
             | Inr bytes_per_sector \<Rightarrow>
                 (case byte_at data 0x0D of
                    Inl err \<Rightarrow> Inl err
                  | Inr sectors_per_cluster \<Rightarrow>
                      let cluster_size = bytes_per_sector * sectors_per_cluster in
                      (case unpack 8 (slice data 0x30 0x38) of
                         Inl err \<Rightarrow> Inl err
                       | Inr mft_cluster \<Rightarrow>
                           (case unpack_signed_byte (slice data 0x40 0x41) of
                              Inl err \<Rightarrow> Inl err
                            | Inr mft_entry_size_raw \<Rightarrow>
                                Inr (True,
                                  p\<lparr>p_bytes_per_sector := bytes_per_sector,
                                    p_sectors_per_cluster := sectors_per_cluster,
                                    p_cluster_size := cluster_size,
                                    p_mft_offset :=
                                      p_offset p + int (mft_cluster * cluster_size),
                                    p_mft_entry_size :=
                                      (if mft_entry_size_raw > 0
                                       then nat mft_entry_size_raw * cluster_size
                                       else 2 ^ nat (- mft_entry_size_raw))\<rparr>))))))"

definition read_mft_entry :: "image_file \<Rightarrow> partition \<Rightarrow> int \<Rightarrow> py_error + bytes" where
  "read_mft_entry img p entry_number =
     image_read img (p_mft_offset p + entry_number * int (p_mft_entry_size p))
       (p_mft_entry_size p)"

definition read_cluster :: "image_file \<Rightarrow> partition \<Rightarrow> int \<Rightarrow> py_error + bytes" where
  "read_cluster img p cluster_number =
     image_read img (p_offset p + cluster_number * int (p_cluster_size p)) (p_cluster_size p)"

section \<open>image\_handler.py: find\_ntfs\_partitions\<close>

text \<open>\<^verbatim>\<open>partition = NTFSPartition(image, offset);
  if partition.parse_boot_sector(): partitions.append(partition)\<close>\<close>

definition probe :: "image_file \<Rightarrow> int \<Rightarrow> partition list \<Rightarrow> py_error + partition list" where
  "probe img offset partitions =
     (case parse_boot_sector img (NTFSPartition offset) of
        Inl err \<Rightarrow> Inl err
      | Inr (ok, part) \<Rightarrow> Inr (if ok then partitions @ [part] else partitions))"

text \<open>The loop over the four MBR entries.\<close>

fun mbr_entries :: "image_file \<Rightarrow> bytes \<Rightarrow> nat list \<Rightarrow> partition list \<Rightarrow> py_error + partition list" where
  "mbr_entries img mbr [] partitions = Inr partitions"
| "mbr_entries img mbr (i # rest) partitions =
     (let entry_offset = 446 + i * 16;
          entry = slice mbr entry_offset (entry_offset + 16)
      in case byte_at entry 4 of
           Inl err \<Rightarrow> Inl err
         | Inr partition_type \<Rightarrow>
             if partition_type \<in> set [0x07, 0x17, 0x27] then
               (case unpack 4 (slice entry 8 12) of
                  Inl err \<Rightarrow> Inl err
                | Inr lba_start \<Rightarrow>
                    (case probe img (int (lba_start * 512)) partitions of
                       Inl err \<Rightarrow> Inl err
                     | Inr partitions' \<Rightarrow> mbr_entries img mbr rest partitions'))
             else mbr_entries img mbr rest partitions)"

definition ntfs_guid :: bytes where
  "ntfs_guid = [0xA2, 0xA0, 0xD0, 0xEB, 0xE5, 0xB9, 0x33, 0x44,
                0x87, 0xC0, 0x68, 0xB6, 0xB7, 0x26, 0x99, 0xC7]"

text \<open>The loop over the GPT entries.\<close>

fun gpt_entries ::
  "image_file \<Rightarrow> nat \<Rightarrow> nat \<Rightarrow> nat list \<Rightarrow> partition list \<Rightarrow> py_error + partition list" where
  "gpt_entries img partition_entry_lba entry_size [] partitions = Inr partitions"
| "gpt_entries img partition_entry_lba entry_size (i # rest) partitions =
     (let entry_offset = partition_entry_lba * 512 + i * entry_size in
      case image_read img (int entry_offset) entry_size of
        Inl err \<Rightarrow> Inl err
      | Inr entry \<Rightarrow>
          let partition_type_guid = slice entry 0 16 in
          if partition_type_guid = ntfs_guid \<or> slice entry 0 16 \<noteq> replicate 16 0 then
            (case unpack 8 (slice entry 32 40) of
               Inl err \<Rightarrow> Inl err
             | Inr start_lba \<Rightarrow>
                 if start_lba > 0 then
                   (case probe img (int (start_lba * 512)) partitions of
                      Inl err \<Rightarrow> Inl err
                    | Inr partitions' \<Rightarrow>
                        gpt_entries img partition_entry_lba entry_size rest partitions')
                 else gpt_entries img partition_entry_lba entry_size rest partitions)
          else gpt_entries img partition_entry_lba entry_size rest partitions)"

definition EFI_PART :: bytes where
  "EFI_PART = [0x45, 0x46, 0x49, 0x20, 0x50, 0x41, 0x52, 0x54]"

definition find_ntfs_partitions :: "image_file \<Rightarrow> py_error + partition list" where
  "find_ntfs_partitions img =
     (case image_read img 0 512 of
        Inl err \<Rightarrow> Inl err
      | Inr mbr \<Rightarrow>
          if slice mbr 510 512 \<noteq> [0x55, 0xAA] then probe img 0 []
          else
            (case mbr_entries img mbr [0..<4] [] of
               Inl err \<Rightarrow> Inl err
             | Inr partitions \<Rightarrow>
                 (case image_read img 512 512 of
                    Inl err \<Rightarrow> Inl err
                  | Inr gpt_header \<Rightarrow>
                      if slice gpt_header 0 8 = EFI_PART then
                        (case unpack 8 (slice gpt_header 72 80) of
                           Inl err \<Rightarrow> Inl err
                         | Inr partition_entry_lba \<Rightarrow>
                             (case unpack 4 (slice gpt_header 80 84) of
                                Inl err \<Rightarrow> Inl err
                              | Inr num_entries \<Rightarrow>
                                  (case unpack 4 (slice gpt_header 84 88) of
                                     Inl err \<Rightarrow> Inl err
                                   | Inr entry_size \<Rightarrow>
                                       gpt_entries img partition_entry_lba entry_size
                                         [0..<min num_entries 128] partitions)))
                      else Inr partitions)))"

section \<open>image\_handler.py: NTFSExtractor.\_extract\_from\_data\_runs\<close>

text \<open>
  The output file is the list of the bytes written so far, paired with the counter
  \<^verbatim>\<open>written\<close>. The inner loop of the sparse branch, over the clusters of the run
  still to write; leaving the recursion is the \<^verbatim>\<open>break\<close>.
\<close>

fun zero_fill :: "nat \<Rightarrow> nat \<Rightarrow> nat \<Rightarrow> bytes \<times> nat \<Rightarrow> bytes \<times> nat" where
  "zero_fill cluster_size real_size 0 (out, written) = (out, written)"
| "zero_fill cluster_size real_size (Suc n) (out, written) =
     (let zero_chunk = replicate cluster_size (0 :: byte) in
      if real_size > 0 then
        let remaining = int real_size - int written in
        if remaining \<le> 0 then (out, written)
        else if remaining < int (length zero_chunk)
          then zero_fill cluster_size real_size n
                 (out @ take (nat remaining) zero_chunk, written + nat remaining)
        else zero_fill cluster_size real_size n
               (out @ zero_chunk, written + length zero_chunk)
      else zero_fill cluster_size real_size n (out @ zero_chunk, written + length zero_chunk))"

text \<open>The inner loop of the non-sparse branch, over the indices \<open>i\<close> of the run still
  to read.\<close>

fun copy_clusters ::
  "image_file \<Rightarrow> partition \<Rightarrow> nat \<Rightarrow> int \<Rightarrow> nat list \<Rightarrow> bytes \<times> nat \<Rightarrow> py_error + (bytes \<times> nat)" where
  "copy_clusters img p real_size cluster [] (out, written) = Inr (out, written)"
| "copy_clusters img p real_size cluster (i # rest) (out, written) =
     (if real_size > 0 \<and> written \<ge> real_size then Inr (out, written)
      else
        (case read_cluster img p (cluster + int i) of
           Inl err \<Rightarrow> Inl err
         | Inr cluster_data \<Rightarrow>
             if real_size > 0 then
               let remaining = real_size - written in
               if remaining < length cluster_data
               then copy_clusters img p real_size cluster rest
                      (out @ take remaining cluster_data, written + remaining)
               else copy_clusters img p real_size cluster rest
                      (out @ cluster_data, written + length cluster_data)
             else copy_clusters img p real_size cluster rest
                    (out @ cluster_data, written + length cluster_data)))"

text \<open>The loop over the data runs.\<close>

fun extract_runs ::
  "image_file \<Rightarrow> partition \<Rightarrow> nat \<Rightarrow> bool \<Rightarrow> data_run list \<Rightarrow> bytes \<times> nat
     \<Rightarrow> py_error + (bytes \<times> nat)" where
  "extract_runs img p real_size skip_sparse [] (out, written) = Inr (out, written)"
| "extract_runs img p real_size skip_sparse (run # rest) (out, written) =
     (if real_size > 0 \<and> written \<ge> real_size then Inr (out, written)
      else if sparse run \<or> start_cluster run = 0 then
        let sparse_size = run_length run * p_cluster_size p in
        if skip_sparse
        then extract_runs img p real_size skip_sparse rest (out, written + sparse_size)
        else extract_runs img p real_size skip_sparse rest
               (zero_fill (p_cluster_size p) real_size (run_length run) (out, written))
      else
        (case copy_clusters img p real_size (start_cluster run) [0..<run_length run]
                (out, written) of
           Inl err \<Rightarrow> Inl err
         | Inr state \<Rightarrow> extract_runs img p real_size skip_sparse rest state))"

text \<open>\<^verbatim>\<open>_extract_from_data_runs(data_runs, real_size, out_file, skip_sparse)\<close> on
  an empty output file: the bytes written.\<close>

definition extract_from_data_runs ::
  "image_file \<Rightarrow> partition \<Rightarrow> data_run list \<Rightarrow> nat \<Rightarrow> bool \<Rightarrow> py_error + bytes" where
  "extract_from_data_runs img p data_runs real_size skip_sparse =
     (case extract_runs img p real_size skip_sparse data_runs ([], 0) of
        Inl err \<Rightarrow> Inl err
      | Inr (out, written) \<Rightarrow> Inr out)"

section \<open>logfile\_parser.py: the fallback scan for a file name\<close>

record log_record =
  lr_this_lsn :: nat
  lr_previous_lsn :: nat
  lr_client_undo_lsn :: nat
  lr_client_data_length :: nat
  lr_client_id :: nat
  lr_record_type :: nat
  lr_transaction_id :: nat
  lr_flags :: nat
  lr_redo_op :: nat
  lr_undo_op :: nat
  lr_redo_offset :: nat
  lr_redo_length :: nat
  lr_undo_offset :: nat
  lr_undo_length :: nat
  lr_target_attribute :: nat
  lr_lcns_to_follow :: nat
  lr_record_offset :: nat
  lr_attribute_offset :: nat
  lr_target_vcn :: nat
  lr_target_lcn :: nat
  lr_filename :: ustr
  lr_file_reference :: nat
  lr_parent_reference :: nat
  lr_timestamp :: string
  lr_event :: string
  lr_file_attr :: nat

text \<open>\<^verbatim>\<open>LogRecord()\<close> with the defaults of the dataclass.\<close>

definition LogRecord :: log_record where
  "LogRecord =
     \<lparr>lr_this_lsn = 0, lr_previous_lsn = 0, lr_client_undo_lsn = 0,
      lr_client_data_length = 0, lr_client_id = 0, lr_record_type = 0,
      lr_transaction_id = 0, lr_flags = 0, lr_redo_op = 0, lr_undo_op = 0,
      lr_redo_offset = 0, lr_redo_length = 0, lr_undo_offset = 0, lr_undo_length = 0,
      lr_target_attribute = 0, lr_lcns_to_follow = 0, lr_record_offset = 0,
      lr_attribute_offset = 0, lr_target_vcn = 0, lr_target_lcn = 0,
      lr_filename = [], lr_file_reference = 0, lr_parent_reference = 0,
      lr_timestamp = '''', lr_event = '''', lr_file_attr = 0\<rparr>"

text \<open>\<^verbatim>\<open>range(start, stop, step)\<close> for natural numbers and a positive step.\<close>

function py_range :: "nat \<Rightarrow> nat \<Rightarrow> nat \<Rightarrow> nat list" where
  "py_range start stop step =
     (if 0 < step \<and> start < stop then start # py_range (start + step) stop step else [])"
  by pat_completeness auto
termination
  by (relation "measure (\<lambda>(start, stop, step). stop - start)") auto

declare py_range.simps [simp del]

text \<open>\<^verbatim>\<open>bs.decode('utf-16-le', errors='ignore')\<close>, which never raises.\<close>

definition decode_ignore :: "bytes \<Rightarrow> ustr" where
  "decode_ignore bs = (case decode_utf16_le Ignore bs of None \<Rightarrow> [] | Some s \<Rightarrow> s)"

text \<open>
  The body of the loop of \<^verbatim>\<open>_scan_for_filename\<close> at one offset: the record as
  the \<^verbatim>\<open>return\<close> leaves it, or \<open>None\<close> when the loop goes on.
  \<^verbatim>\<open>str.isprintable\<close> of a character is the parameter \<open>isprintable\<close>; space,
  full stop and tab are the code points 32, 46 and 9.
\<close>

definition scan_at ::
  "(nat \<Rightarrow> bool) \<Rightarrow> 'dt calendar \<Rightarrow> bytes \<Rightarrow> nat \<Rightarrow> log_record \<Rightarrow> log_record option" where
  "scan_at isprintable cal data offset record =
     (let name_len = unat (data ! (offset + 0x40));
          namespace = unat (data ! (offset + 0x41))
      in
      if 1 \<le> name_len \<and> name_len \<le> 255 \<and> namespace \<le> 3 then
        let name_end = offset + 0x42 + (name_len * 2) in
        if name_end \<le> length data then
          let filename = decode_ignore (slice data (offset + 0x42) name_end) in
          if filename \<noteq> [] \<and> length filename \<ge> 1 then
            if list_all (\<lambda>c. isprintable c \<or> c \<in> set [32, 46, 9]) filename then
              let parent_ref = from_bytes_little (slice data offset (offset + 8));
                  parent_entry = parent_ref AND 0x0000FFFFFFFFFFFF
              in
              if parent_entry < 0x1000000000 then
                let record = record\<lparr>lr_filename := filename\<rparr>;
                    record = record\<lparr>lr_parent_reference := parent_ref\<rparr>;
                    ts = from_bytes_little (slice data (offset + 0x08) (offset + 0x10));
                    record =
                      (if ts > 0 then
                         (case filetime_to_datetime cal ts of
                            None \<Rightarrow> record
                          | Some dt \<Rightarrow>
                              record\<lparr>lr_timestamp := format_timestamp cal (Some dt)\<rparr>)
                       else record)
                in Some (record\<lparr>lr_file_attr :=
                           from_bytes_little (slice data (offset + 0x38) (offset + 0x3C))\<rparr>)
              else None
            else None
          else None
        else None
      else None)"

fun scan_loop ::
  "(nat \<Rightarrow> bool) \<Rightarrow> 'dt calendar \<Rightarrow> bytes \<Rightarrow> nat list \<Rightarrow> log_record \<Rightarrow> log_record" where
  "scan_loop isprintable cal data [] record = record"
| "scan_loop isprintable cal data (offset # rest) record =
     (case scan_at isprintable cal data offset record of
        Some found \<Rightarrow> found
      | None \<Rightarrow> scan_loop isprintable cal data rest record)"

definition scan_for_filename ::
  "(nat \<Rightarrow> bool) \<Rightarrow> 'dt calendar \<Rightarrow> log_record \<Rightarrow> bytes \<Rightarrow> log_record" where
  "scan_for_filename isprintable cal record data =
     (if length data < 0x44 then record
      else scan_loop isprintable cal data (py_range 0 (length data - 0x44) 8) record)"

section \<open>usnjrnl\_parser.py: records\<close>

record usn_record =
  u_record_length :: nat
  u_major_version :: nat
  u_minor_version :: nat
  u_file_reference :: nat
  u_parent_file_reference :: nat
  u_usn :: nat
  u_timestamp :: string
  u_timestamp_raw :: nat
  u_reason :: nat
  u_source_info :: nat
  u_security_id :: nat
  u_file_attributes :: nat
  u_filename :: ustr
  u_filename_length :: nat
  u_filename_offset :: nat
  u_extra_info1 :: nat
  u_extra_info2 :: nat

text \<open>\<^verbatim>\<open>UsnRecord()\<close> with the defaults of the dataclass.\<close>

definition UsnRecord :: usn_record where
  "UsnRecord =
     \<lparr>u_record_length = 0, u_major_version = 0, u_minor_version = 0,
      u_file_reference = 0, u_parent_file_reference = 0, u_usn = 0,
      u_timestamp = '''', u_timestamp_raw = 0, u_reason = 0, u_source_info = 0,
      u_security_id = 0, u_file_attributes = 0, u_filename = [],
      u_filename_length = 0, u_filename_offset = 0, u_extra_info1 = 0, u_extra_info2 = 0\<rparr>"

definition MIN_RECORD_SIZE_V2 :: nat where "MIN_RECORD_SIZE_V2 = 60"
definition MIN_RECORD_SIZE_V3 :: nat where "MIN_RECORD_SIZE_V3 = 76"
definition BUFFER_SIZE :: nat where "BUFFER_SIZE = 1024 * 1024"

text \<open>\<^verbatim>\<open>try: name_data.decode('utf-16-le')
  except: name_data.decode('utf-16-le', errors='replace')\<close>\<close>

definition decode_or_replace :: "bytes \<Rightarrow> ustr" where
  "decode_or_replace bs =
     (case decode_utf16_le Strict bs of
        Some s \<Rightarrow> s
      | None \<Rightarrow> (case decode_utf16_le Replace bs of Some s \<Rightarrow> s | None \<Rightarrow> []))"

definition parse_v2_record :: "'dt calendar \<Rightarrow> bytes \<Rightarrow> usn_record \<Rightarrow> usn_record option" where
  "parse_v2_record cal data record =
     (if length data < MIN_RECORD_SIZE_V2 then None
      else
        let record = record
              \<lparr>u_file_reference := from_bytes_little (slice data 8 16),
               u_parent_file_reference := from_bytes_little (slice data 16 24),
               u_usn := from_bytes_little (slice data 24 32),
               u_timestamp_raw := from_bytes_little (slice data 32 40)\<rparr>;
            record = record\<lparr>u_timestamp := timestamp_of cal (u_timestamp_raw record)\<rparr>;
            record = record
              \<lparr>u_reason := from_bytes_little (slice data 40 44),
               u_source_info := from_bytes_little (slice data 44 48),
               u_security_id := from_bytes_little (slice data 48 52),
               u_file_attributes := from_bytes_little (slice data 52 56),
               u_filename_length := from_bytes_little (slice data 56 58),
               u_filename_offset := from_bytes_little (slice data 58 60)\<rparr>
        in
        if u_filename_offset record + u_filename_length record \<le> length data
        then Some (record\<lparr>u_filename :=
               decode_or_replace
                 (slice data (u_filename_offset record)
                    (u_filename_offset record + u_filename_length record))\<rparr>)
        else Some record)"

definition parse_v3_record :: "'dt calendar \<Rightarrow> bytes \<Rightarrow> usn_record \<Rightarrow> usn_record option" where
  "parse_v3_record cal data record =
     (if length data < MIN_RECORD_SIZE_V3 then None
      else
        let record = record
              \<lparr>u_file_reference := from_bytes_little (slice data 8 16),
               u_extra_info1 := from_bytes_little (slice data 16 24),
               u_parent_file_reference := from_bytes_little (slice data 24 32),
               u_extra_info2 := from_bytes_little (slice data 32 40),
               u_usn := from_bytes_little (slice data 40 48),
               u_timestamp_raw := from_bytes_little (slice data 48 56)\<rparr>;
            record = record\<lparr>u_timestamp := timestamp_of cal (u_timestamp_raw record)\<rparr>;
            record = record
              \<lparr>u_reason := from_bytes_little (slice data 56 60),
               u_source_info := from_bytes_little (slice data 60 64),
               u_security_id := from_bytes_little (slice data 64 68),
               u_file_attributes := from_bytes_little (slice data 68 72),
               u_filename_length := from_bytes_little (slice data 72 74),
               u_filename_offset := from_bytes_little (slice data 74 76)\<rparr>
        in
        if u_filename_offset record + u_filename_length record \<le> length data
        then Some (record\<lparr>u_filename :=
               decode_or_replace
                 (slice data (u_filename_offset record)
                    (u_filename_offset record + u_filename_length record))\<rparr>)
        else Some record)"

definition parse_v4_record :: "'dt calendar \<Rightarrow> bytes \<Rightarrow> usn_record \<Rightarrow> usn_record option" where
  "parse_v4_record cal data record = parse_v3_record cal data record"

definition parse_record :: "'dt calendar \<Rightarrow> bytes \<Rightarrow> usn_record option" where
  "parse_record cal data =
     (if length data < MIN_RECORD_SIZE_V2 then None
      else
        let record = UsnRecord
              \<lparr>u_record_length := from_bytes_little (slice data 0 4),
               u_major_version := from_bytes_little (slice data 4 6),
               u_minor_version := from_bytes_little (slice data 6 8)\<rparr>
        in
        if u_major_version record = 2 then parse_v2_record cal data record
        else if u_major_version record = 3 then parse_v3_record cal data record
        else if u_major_version record = 4 then parse_v4_record cal data record
        else None)"

section \<open>usnjrnl\_parser.py: UsnJrnlParser.iter\_records\<close>

text \<open>
  One round of the inner \<^verbatim>\<open>while\<close> loop moves the buffer in one of these ways.
  Each move advances \<^verbatim>\<open>processed_bytes\<close>, the file position of the start of the
  buffer, by the number it carries; a \<open>Record\<close> move carries the record length and
  what \<^verbatim>\<open>_parse_record\<close> returned, and the record is yielded when that is not
  \<^verbatim>\<open>None\<close>.
\<close>

datatype usn_move =
    ZeroSkip nat
  | AllZero nat
  | Resync nat
  | ResyncFailed nat
  | Record nat "usn_record option"
  | NeedMore

fun advance :: "usn_move \<Rightarrow> nat" where
  "advance (ZeroSkip n) = n"
| "advance (AllZero n) = n"
| "advance (Resync n) = n"
| "advance (ResyncFailed n) = n"
| "advance (Record n r) = n"
| "advance NeedMore = 0"

text \<open>The test of the resynchronisation loop at position \<open>i\<close> of the buffer.\<close>

definition plausible_header :: "bytes \<Rightarrow> nat \<Rightarrow> bool" where
  "plausible_header buffer i =
     (let potential_len = from_bytes_little (slice buffer i (i + 4)) in
      if MIN_RECORD_SIZE_V2 \<le> potential_len \<and> potential_len \<le> 65536 then
        let major = from_bytes_little (slice buffer (i + 4) (i + 6));
            minor = from_bytes_little (slice buffer (i + 6) (i + 8))
        in major \<in> set [2, 3, 4] \<and> minor = 0
      else False)"

text \<open>
  The body of the inner loop on a buffer of at least \<^verbatim>\<open>MIN_RECORD_SIZE_V2\<close>
  bytes: the move, the buffer after it, and whether the loop goes on
  (\<^verbatim>\<open>continue\<close> or the end of the body) or is left (\<^verbatim>\<open>break\<close>).
\<close>

definition inner_body :: "'dt calendar \<Rightarrow> bool \<Rightarrow> bytes \<Rightarrow> usn_move \<times> bytes \<times> bool" where
  "inner_body cal skip_zeros buffer =
     (if skip_zeros \<and> slice buffer 0 8 = replicate 8 0 then
        let zero_end =
              (case find (\<lambda>i. slice buffer i (i + 8) \<noteq> replicate 8 0)
                      (py_range 0 (length buffer - 8) 8) of
                 Some i \<Rightarrow> i
               | None \<Rightarrow> length buffer);
            zero_end = (zero_end div 8) * 8
        in
        if zero_end > 0 then (ZeroSkip zero_end, drop zero_end buffer, True)
        else (AllZero (length buffer), [], False)
      else
        let record_length = from_bytes_little (slice buffer 0 4) in
        if record_length < MIN_RECORD_SIZE_V2 \<or> record_length > 65536 then
          (case find (plausible_header buffer) (py_range 8 (length buffer - 8) 8) of
             Some i \<Rightarrow> (Resync i, drop i buffer, True)
           | None \<Rightarrow>
               (ResyncFailed (length buffer - MIN_RECORD_SIZE_V2),
                drop (length buffer - MIN_RECORD_SIZE_V2) buffer, True))
        else if length buffer < record_length then (NeedMore, buffer, False)
        else
          (Record record_length (parse_record cal (take record_length buffer)),
           drop record_length buffer, True))"

text \<open>
  The two nested loops as a machine. \<open>Reading\<close> is the head of the outer loop (read a
  chunk, stop at the end of the file), \<open>Scanning\<close> the head of the inner loop. The
  inner loop can go on for ever (a failed resynchronisation on a buffer of exactly 60
  bytes leaves the buffer as it is), so the machine is run for a number of steps.
\<close>

datatype phase = Reading | Scanning | Finished

record scanner =
  sc_phase :: phase
  sc_rest :: bytes
  sc_buffer :: bytes
  sc_processed :: nat

definition initial :: "bytes \<Rightarrow> scanner" where
  "initial f = \<lparr>sc_phase = Reading, sc_rest = f, sc_buffer = [], sc_processed = 0\<rparr>"

definition scan_step :: "'dt calendar \<Rightarrow> bool \<Rightarrow> scanner \<Rightarrow> usn_move option \<times> scanner" where
  "scan_step cal skip_zeros s =
     (case sc_phase s of
        Finished \<Rightarrow> (None, s)
      | Reading \<Rightarrow>
          let chunk = take BUFFER_SIZE (sc_rest s) in
          if chunk = [] then (None, s\<lparr>sc_phase := Finished\<rparr>)
          else (None, s\<lparr>sc_phase := Scanning,
                          sc_rest := drop BUFFER_SIZE (sc_rest s),
                          sc_buffer := sc_buffer s @ chunk\<rparr>)
      | Scanning \<Rightarrow>
          if length (sc_buffer s) \<ge> MIN_RECORD_SIZE_V2 then
            (case inner_body cal skip_zeros (sc_buffer s) of
               (move, buffer, continue) \<Rightarrow>
                 (Some move,
                  s\<lparr>sc_phase := (if continue then Scanning else Reading),
                    sc_buffer := buffer,
                    sc_processed := sc_processed s + advance move\<rparr>))
          else (None, s\<lparr>sc_phase := Reading\<rparr>))"

text \<open>The moves of the first \<open>n\<close> steps, each with the file position at which it
  happened.\<close>

fun moves :: "'dt calendar \<Rightarrow> bool \<Rightarrow> nat \<Rightarrow> scanner \<Rightarrow> (nat \<times> usn_move) list" where
  "moves cal skip_zeros 0 s = []"
| "moves cal skip_zeros (Suc n) s =
     (case scan_step cal skip_zeros s of
        (None, s') \<Rightarrow> moves cal skip_zeros n s'
      | (Some move, s') \<Rightarrow> (sc_processed s, move) # moves cal skip_zeros n s')"

text \<open>The records that \<^verbatim>\<open>iter_records\<close> yields, each with the file position at
  which it starts.\<close>

fun yielded :: "(nat \<times> usn_move) list \<Rightarrow> (nat \<times> usn_record) list" where
  "yielded [] = []"
| "yielded ((position, Record n (Some r)) # rest) = (position, r) # yielded rest"
| "yielded (other # rest) = yielded rest"

definition iter_records ::
  "'dt calendar \<Rightarrow> bool \<Rightarrow> nat \<Rightarrow> bytes \<Rightarrow> (nat \<times> usn_record) list" where
  "iter_records cal skip_zeros n f = yielded (moves cal skip_zeros n (initial f))"

section \<open>constants.py: labels\<close>

text \<open>\<^verbatim>\<open>str(n)\<close> of an integer, the upper-case hexadecimal digits of
  \<^verbatim>\<open>f"{n:08X}"\<close>, and \<^verbatim>\<open>sep.join(parts)\<close>.\<close>

definition digit_char :: "nat \<Rightarrow> char" where
  "digit_char d = ''0123456789ABCDEF'' ! d"

function str_nat :: "nat \<Rightarrow> string" where
  "str_nat n = (if n < 10 then [digit_char n] else str_nat (n div 10) @ [digit_char (n mod 10)])"
  by pat_completeness auto
termination
  by (relation "measure id") auto

declare str_nat.simps [simp del]

definition str_int :: "int \<Rightarrow> string" where
  "str_int i = (if i < 0 then CHR ''-'' # str_nat (nat (- i)) else str_nat (nat i))"

function hex_upper :: "nat \<Rightarrow> string" where
  "hex_upper n =
     (if n < 16 then [digit_char n] else hex_upper (n div 16) @ [digit_char (n mod 16)])"
  by pat_completeness auto
termination
  by (relation "measure id") auto

declare hex_upper.simps [simp del]

definition hex_08X :: "nat \<Rightarrow> string" where
  "hex_08X n = replicate (8 - length (hex_upper n)) CHR ''0'' @ hex_upper n"

fun join_with :: "string \<Rightarrow> string list \<Rightarrow> string" where
  "join_with sep [] = ''''"
| "join_with sep [part] = part"
| "join_with sep (part # rest) = part @ sep @ join_with sep rest"

text \<open>\<^verbatim>\<open>if flags & flag: labels.append(label)\<close>\<close>

definition flag_label :: "nat \<Rightarrow> nat \<Rightarrow> string \<Rightarrow> string list" where
  "flag_label flags flag label = (if flags AND flag \<noteq> 0 then [label] else [])"

definition format_file_attr :: "nat \<Rightarrow> string" where
  "format_file_attr flags =
     (let attrs =
            flag_label flags 0x0001 ''ReadOnly'' @
            flag_label flags 0x0002 ''Hidden'' @
            flag_label flags 0x0004 ''System'' @
            flag_label flags 0x0010 ''Directory'' @
            flag_label flags 0x0020 ''Archive'' @
            flag_label flags 0x0800 ''Compressed'' @
            flag_label flags 0x4000 ''Encrypted'' @
            flag_label flags 0x0200 ''Sparse'' @
            flag_label flags 0x0400 ''ReparsePoint''
      in if attrs \<noteq> [] then join_with ''|'' attrs else ''Normal'')"

definition format_usn_reason :: "nat \<Rightarrow> string" where
  "format_usn_reason reason =
     (let reasons =
            flag_label reason 0x00000001 ''DataOverwrite'' @
            flag_label reason 0x00000002 ''DataExtend'' @
            flag_label reason 0x00000004 ''DataTruncation'' @
            flag_label reason 0x00000100 ''FileCreate'' @
            flag_label reason 0x00000200 ''FileDelete'' @
            flag_label reason 0x00001000 ''RenameOldName'' @
            flag_label reason 0x00002000 ''RenameNewName'' @
            flag_label reason 0x00000800 ''SecurityChange'' @
            flag_label reason 0x00008000 ''BasicInfoChange'' @
            flag_label reason 0x00010000 ''HardLinkChange'' @
            flag_label reason 0x80000000 ''Close''
      in if reasons \<noteq> [] then join_with ''|'' reasons else ''0x'' @ hex_08X reason)"

definition format_file_reference :: "nat \<Rightarrow> string" where
  "format_file_reference ref =
     (case parse_file_reference (int ref) of
        (entry, seq) \<Rightarrow> str_int entry @ ''-'' @ str_int seq)"

section \<open>analyzer.py: UnifiedAnalyzer.\_iter\_all\_records\<close>

text \<open>
  The field \<^verbatim>\<open>file_attr\<close> of a \<^verbatim>\<open>UnifiedRecord\<close> receives the integer
  \<^verbatim>\<open>si_flags\<close> from the MFT branch and a string from the two other branches.
\<close>

datatype attr_value = AttrFlags nat | AttrText string

record unified_record =
  ur_timestamp :: string
  ur_source :: string
  ur_event :: string
  ur_filename :: ustr
  ur_full_path :: ustr
  ur_file_attr :: attr_value
  ur_file_reference :: string
  ur_parent_reference :: string
  ur_extra_info :: string

text \<open>\<^verbatim>\<open>UnifiedRecord()\<close> with the defaults of the dataclass.\<close>

definition UnifiedRecord :: unified_record where
  "UnifiedRecord =
     \<lparr>ur_timestamp = '''', ur_source = '''', ur_event = '''', ur_filename = [],
      ur_full_path = [], ur_file_attr = AttrText '''', ur_file_reference = '''',
      ur_parent_reference = '''', ur_extra_info = ''''\<rparr>"

text \<open>
  The three loops of the generator; the result of each is the list of the records it
  yields, in the order of the yields. The records that the three parsers yield are
  the arguments.
\<close>

fun mft_loop :: "mft_record list \<Rightarrow> unified_record list" where
  "mft_loop [] = []"
| "mft_loop (record # rest) =
     (if mr_si_created record \<noteq> '''' then
        [UnifiedRecord
           \<lparr>ur_timestamp := mr_si_created record,
            ur_source := ''MFT'',
            ur_event := ''FileCreate (SI)'',
            ur_filename := mr_filename record,
            ur_full_path := mr_full_path record,
            ur_file_attr := AttrFlags (mr_si_flags record),
            ur_file_reference :=
              str_int (mr_entry_number record) @ ''-'' @ str_nat (mr_sequence_number record),
            ur_parent_reference := str_nat (mr_parent_ref record)\<rparr>]
      else []) @
     (if mr_si_modified record \<noteq> '''' \<and> mr_si_modified record \<noteq> mr_si_created record then
        [UnifiedRecord
           \<lparr>ur_timestamp := mr_si_modified record,
            ur_source := ''MFT'',
            ur_event := ''FileModify (SI)'',
            ur_filename := mr_filename record,
            ur_full_path := mr_full_path record,
            ur_file_attr := AttrFlags (mr_si_flags record),
            ur_file_reference :=
              str_int (mr_entry_number record) @ ''-'' @ str_nat (mr_sequence_number record),
            ur_parent_reference := str_nat (mr_parent_ref record)\<rparr>]
      else []) @
     mft_loop rest"

text \<open>\<^verbatim>\<open>UsnJrnlParserWithMFT.get_full_path\<close>\<close>

definition get_full_path :: "(int \<rightharpoonup> ustr) \<Rightarrow> nat \<Rightarrow> ustr" where
  "get_full_path path_cache file_ref =
     (case parse_file_reference (int file_ref) of
        (entry_number, seq) \<Rightarrow>
          (case path_cache entry_number of None \<Rightarrow> [] | Some path \<Rightarrow> path))"

text \<open>The path cache is there when \<^verbatim>\<open>mft_path\<close> was given, and then the parser
  is a \<^verbatim>\<open>UsnJrnlParserWithMFT\<close>.\<close>

fun usn_loop :: "(int \<rightharpoonup> ustr) option \<Rightarrow> usn_record list \<Rightarrow> unified_record list" where
  "usn_loop path_cache [] = []"
| "usn_loop path_cache (record # rest) =
     (let full_path =
            (case path_cache of
               None \<Rightarrow> []
             | Some cache \<Rightarrow> get_full_path cache (u_file_reference record))
      in
      UnifiedRecord
        \<lparr>ur_timestamp := u_timestamp record,
         ur_source := ''UsnJrnl'',
         ur_event := format_usn_reason (u_reason record),
         ur_filename := u_filename record,
         ur_full_path := full_path,
         ur_file_attr := AttrText (format_file_attr (u_file_attributes record)),
         ur_file_reference := format_file_reference (u_file_reference record),
         ur_parent_reference := format_file_reference (u_parent_file_reference record),
         ur_extra_info := ''USN:'' @ str_nat (u_usn record)\<rparr>
      # usn_loop path_cache rest)"

fun log_loop :: "log_record list \<Rightarrow> unified_record list" where
  "log_loop [] = []"
| "log_loop (record # rest) =
     (if lr_filename record \<noteq> [] \<or> lr_event record \<noteq> '''' then
        UnifiedRecord
          \<lparr>ur_timestamp := lr_timestamp record,
           ur_source := ''LogFile'',
           ur_event := lr_event record,
           ur_filename := lr_filename record,
           ur_full_path := [],
           ur_file_attr := AttrText '''',
           ur_file_reference :=
             (if lr_file_reference record \<noteq> 0 then str_nat (lr_file_reference record)
              else ''''),
           ur_parent_reference :=
             (if lr_parent_reference record \<noteq> 0 then str_nat (lr_parent_reference record)
              else ''''),
           ur_extra_info := ''LSN:'' @ str_nat (lr_this_lsn record)\<rparr>
        # log_loop rest
      else log_loop rest)"

text \<open>
  \<^verbatim>\<open>_iter_all_records(mft_path, logfile_path, usnjrnl_path)\<close>. Each argument is
  \<open>None\<close> when the path is not given or the file does not exist, and otherwise the
  records that the parser of the file yields: \<^verbatim>\<open>iter_entries_with_paths\<close> for the
  MFT, \<^verbatim>\<open>iter_records\<close> for the journal, with the path cache, and for the log
  file.
\<close>

definition iter_all_records ::
  "mft_record list option \<Rightarrow> log_record list option
     \<Rightarrow> (usn_record list \<times> (int \<rightharpoonup> ustr) option) option \<Rightarrow> unified_record list" where
  "iter_all_records mft logfile usnjrnl =
     (case mft of None \<Rightarrow> [] | Some records \<Rightarrow> mft_loop records) @
     (case usnjrnl of None \<Rightarrow> [] | Some (records, path_cache) \<Rightarrow> usn_loop path_cache records) @
     (case logfile of None \<Rightarrow> [] | Some records \<Rightarrow> log_loop records)"

section \<open>Notions used to state the properties\<close>

text \<open>The two's complement reading of a \<open>w\<close>-bit unsigned value, and of a
  little-endian byte string.\<close>

definition twos_complement :: "nat \<Rightarrow> nat \<Rightarrow> int" where
  "twos_complement w u = (if u < 2 ^ (w - 1) then int u else int u - 2 ^ w)"

definition signed_little :: "bytes \<Rightarrow> int" where
  "signed_little bs = twos_complement (8 * length bs) (from_bytes_little bs)"

text \<open>A run header at \<open>offset\<close> that \<^verbatim>\<open>_parse_data_runs\<close> decodes: non-zero,
  with length size \<open>lsz > 0\<close> and offset size \<open>osz\<close>, and the run inside the buffer.\<close>

definition decodable_run :: "bytes \<Rightarrow> nat \<Rightarrow> nat \<Rightarrow> nat \<Rightarrow> bool" where
  "decodable_run data offset lsz osz \<longleftrightarrow>
     offset < length data \<and> data ! offset \<noteq> 0 \<and>
     lsz = unat (data ! offset AND 0x0F) \<and> osz = unat (drop_bit 4 (data ! offset) AND 0x0F) \<and>
     lsz \<noteq> 0 \<and> offset + 1 + lsz + osz \<le> length data"

text \<open>
  A run as it stands in a run list: the header byte, whose low nibble is the number of
  length bytes and whose high nibble is the number of offset bytes, then the length
  bytes and the offset bytes. A run field is a pair of length bytes and offset bytes
  with 1 to 15 length bytes and at most 15 offset bytes. \<open>decoded_runs\<close> is the
  decoding of a list of run fields from a running LCN: the length is the unsigned
  little-endian reading of the length bytes; with no offset bytes the run is sparse
  and the running LCN stays; otherwise the two's complement reading of the offset
  bytes is added to the running LCN, and the sum is the start of the run and the
  running LCN of the runs after it.
\<close>

definition run_header :: "nat \<Rightarrow> nat \<Rightarrow> byte" where
  "run_header length_size offset_size = of_nat (16 * offset_size + length_size)"

definition encode_run :: "bytes \<times> bytes \<Rightarrow> bytes" where
  "encode_run f =
     (case f of (length_bytes, offset_bytes) \<Rightarrow>
        run_header (length length_bytes) (length offset_bytes) # length_bytes @ offset_bytes)"

definition run_field :: "bytes \<times> bytes \<Rightarrow> bool" where
  "run_field f \<longleftrightarrow> 1 \<le> length (fst f) \<and> length (fst f) \<le> 15 \<and> length (snd f) \<le> 15"

fun decoded_runs :: "int \<Rightarrow> (bytes \<times> bytes) list \<Rightarrow> data_run list" where
  "decoded_runs lcn [] = []"
| "decoded_runs lcn ((length_bytes, offset_bytes) # rest) =
     (if offset_bytes = [] then
        \<lparr>start_cluster = 0, run_length = from_bytes_little length_bytes, sparse = True\<rparr>
          # decoded_runs lcn rest
      else
        \<lparr>start_cluster = lcn + signed_little offset_bytes,
          run_length = from_bytes_little length_bytes, sparse = False\<rparr>
          # decoded_runs (lcn + signed_little offset_bytes) rest)"

text \<open>A calendar for concrete runs: no FILETIME converts, every timestamp prints empty.\<close>

definition plain_calendar :: "string calendar" where
  "plain_calendar = \<lparr>to_kst = Map.empty, strftime = id\<rparr>"

text \<open>
  A 1024-byte \<^verbatim>\<open>FILE\<close> entry written in two sectors: fixup array at offset 48
  with three words (signature \<^verbatim>\<open>05 00\<close>, then the saved tails \<^verbatim>\<open>AA BB\<close> and
  \<^verbatim>\<open>CC DD\<close>), end marker at the attribute offset 56. The tail of the second
  sector holds the signature; the tail of the first sector holds \<^verbatim>\<open>11 22\<close>.
\<close>

definition torn_entry :: bytes where
  "torn_entry =
     [0x46, 0x49, 0x4C, 0x45, 0x30, 0x00, 0x03, 0x00] @ replicate 8 0 @
     [0x01, 0x00, 0x01, 0x00, 0x38, 0x00, 0x01, 0x00,
      0x40, 0x00, 0x00, 0x00, 0x00, 0x04, 0x00, 0x00] @
     replicate 16 0 @
     [0x05, 0x00, 0xAA, 0xBB, 0xCC, 0xDD, 0x00, 0x00, 0xFF, 0xFF, 0xFF, 0xFF] @
     replicate 450 0 @ [0x11, 0x22] @ replicate 510 0 @ [0x05, 0x00]"

text \<open>The choice of name that \<^verbatim>\<open>to_record\<close> makes, stated on the attribute
  list: the first \<^verbatim>\<open>$FILE_NAME\<close> in the Win32 or Win32-and-DOS namespace if
  there is one, otherwise the first \<^verbatim>\<open>$FILE_NAME\<close> of any namespace.\<close>

definition is_win32_name :: "attribute \<Rightarrow> bool" where
  "is_win32_name attr \<longleftrightarrow>
     a_type attr = FILE_NAME \<and> fn_get fn_namespace attr \<in> {WIN32, WIN32_AND_DOS}"

definition is_file_name :: "attribute \<Rightarrow> bool" where
  "is_file_name attr \<longleftrightarrow> a_type attr = FILE_NAME"

definition preferred_name :: "attribute list \<Rightarrow> attribute option" where
  "preferred_name attrs =
     (case find is_win32_name attrs of
        Some attr \<Rightarrow> Some attr
      | None \<Rightarrow> find is_file_name attrs)"

text \<open>The choice by the ranking Win32 or Win32-and-DOS, then POSIX, then DOS, each
  rank by first occurrence.\<close>

definition is_posix_name :: "attribute \<Rightarrow> bool" where
  "is_posix_name attr \<longleftrightarrow> a_type attr = FILE_NAME \<and> fn_get fn_namespace attr = POSIX"

definition is_dos_name :: "attribute \<Rightarrow> bool" where
  "is_dos_name attr \<longleftrightarrow> a_type attr = FILE_NAME \<and> fn_get fn_namespace attr = DOS"

definition ranked_name :: "attribute list \<Rightarrow> attribute option" where
  "ranked_name attrs =
     (case find is_win32_name attrs of
        Some attr \<Rightarrow> Some attr
      | None \<Rightarrow>
          (case find is_posix_name attrs of
             Some attr \<Rightarrow> Some attr
           | None \<Rightarrow> find is_dos_name attrs))"

text \<open>
  Concrete entries: a 56-byte header (signature \<^verbatim>\<open>FILE\<close>, fixup count 0,
  sequence 1, attributes at offset 56, in use, used size 1024), a 96-byte resident
  \<^verbatim>\<open>$FILE_NAME\<close> attribute with parent entry 5, namespace byte \<open>ns\<close> and the
  one-character name \<open>ch\<close>, and a 1024-byte entry holding two such attributes and
  the end marker.
\<close>

definition entry_header :: bytes where
  "entry_header =
     [0x46, 0x49, 0x4C, 0x45, 0x30, 0x00, 0x00, 0x00] @ replicate 8 0 @
     [0x01, 0x00, 0x01, 0x00, 0x38, 0x00, 0x01, 0x00,
      0x00, 0x04, 0x00, 0x00, 0x00, 0x04, 0x00, 0x00] @
     replicate 24 0"

definition file_name_attr :: "byte \<Rightarrow> byte \<Rightarrow> bytes" where
  "file_name_attr ns ch =
     [0x30, 0x00, 0x00, 0x00, 0x60, 0x00, 0x00, 0x00, 0x00, 0x00, 0x00, 0x00,
      0x00, 0x00, 0x00, 0x00, 0x44, 0x00, 0x00, 0x00, 0x18, 0x00, 0x00, 0x00] @
     [0x05, 0x00, 0x00, 0x00, 0x00, 0x00, 0x05, 0x00] @ replicate 56 0 @
     [0x01, ns, ch, 0x00] @ replicate 4 0"

definition two_name_entry :: "byte \<Rightarrow> byte \<Rightarrow> byte \<Rightarrow> byte \<Rightarrow> bytes" where
  "two_name_entry ns1 ch1 ns2 ch2 =
     entry_header @ file_name_attr ns1 ch1 @ file_name_attr ns2 ch2 @
     [0xFF, 0xFF, 0xFF, 0xFF] @ replicate 772 0"

text \<open>
  Concrete non-resident \<^verbatim>\<open>$DATA\<close> attributes: one of 40 bytes, and one of 72
  bytes whose lowest start-VCN byte is \<open>vcn\<close>, with allocated size \<open>0x3000\<close> and
  the words \<open>0x2345\<close> and \<open>0x1234\<close> in the places of the real and the initialized
  size. \<open>decoded_sizes\<close> reads the three sizes off a decoded attribute.
\<close>

definition short_non_resident :: bytes where
  "short_non_resident =
     [0x80, 0x00, 0x00, 0x00, 0x28, 0x00, 0x00, 0x00, 0x01, 0x00, 0x00, 0x00,
      0x00, 0x00, 0x00, 0x00] @
     [0x01, 0x00, 0x00, 0x00, 0x00, 0x00, 0x00, 0x00] @ replicate 16 0"

definition non_resident_attr :: "byte \<Rightarrow> bytes" where
  "non_resident_attr vcn =
     [0x80, 0x00, 0x00, 0x00, 0x48, 0x00, 0x00, 0x00, 0x01, 0x00, 0x00, 0x00,
      0x00, 0x00, 0x00, 0x00] @
     [vcn, 0x00, 0x00, 0x00, 0x00, 0x00, 0x00, 0x00] @
     [0x12, 0x00, 0x00, 0x00, 0x00, 0x00, 0x00, 0x00] @
     [0x40, 0x00, 0x00, 0x00, 0x00, 0x00, 0x00, 0x00] @
     [0x00, 0x30, 0x00, 0x00, 0x00, 0x00, 0x00, 0x00] @
     [0x45, 0x23, 0x00, 0x00, 0x00, 0x00, 0x00, 0x00] @
     [0x34, 0x12, 0x00, 0x00, 0x00, 0x00, 0x00, 0x00] @
     [0x11, 0x03, 0x20, 0x00, 0x00, 0x00, 0x00, 0x00]"

definition decoded_sizes :: "attribute option \<Rightarrow> (nat \<times> nat \<times> nat) option" where
  "decoded_sizes r =
     (case r of
        None \<Rightarrow> None
      | Some a \<Rightarrow>
          (case a_nonres a of
             None \<Rightarrow> None
           | Some info \<Rightarrow>
               Some (nr_allocated_size info, nr_real_size info, nr_initialized_size info)))"

text \<open>A path that begins with a backslash (code point 92), and a path cache all of
  whose paths do.\<close>

definition rooted :: "ustr \<Rightarrow> bool" where
  "rooted path = (case path of [] \<Rightarrow> False | c # rest \<Rightarrow> c = 92)"

definition rooted_cache :: "(int \<rightharpoonup> ustr) \<Rightarrow> bool" where
  "rooted_cache path_cache = (\<forall>entry_num path. path_cache entry_num = Some path \<longrightarrow> rooted path)"

text \<open>
  \<open>on_disk\<close> is a raw image with the given bytes on a file system that accepts
  offsets up to \<open>2^40\<close>. A 512-byte image that is an NTFS boot sector without the
  \<^verbatim>\<open>55 AA\<close> mark: 512 bytes per sector, 8 sectors per cluster, MFT at
  cluster 4, entry size byte \<^verbatim>\<open>F6\<close> (\<open>-10\<close>). A second image agrees with it on
  the first 65 bytes only.
\<close>

definition on_disk :: "bytes \<Rightarrow> image_file" where
  "on_disk bs = \<lparr>im_data = bs, im_seek_max = 2 ^ 40\<rparr>"

definition boot_image :: bytes where
  "boot_image =
     [0xEB, 0x52, 0x90] @ [0x4E, 0x54, 0x46, 0x53, 0x20, 0x20, 0x20, 0x20] @
     [0x00, 0x02, 0x08] @ replicate 34 0 @
     [0x04, 0x00, 0x00, 0x00, 0x00, 0x00, 0x00, 0x00] @ replicate 8 0 @ [0xF6] @
     replicate 447 0"

definition boot_image_other_tail :: bytes where
  "boot_image_other_tail = take 65 boot_image @ replicate 959 0x07"

text \<open>
  What a run contributes to the extracted stream. \<open>cluster_bytes\<close> is the content of
  the image at the place of a cluster. A run is zero-filled when it is flagged sparse
  or starts at cluster 0; \<open>run_bytes\<close> is one cluster size of zero bytes per cluster
  for a zero-filled run and the contents of the referenced clusters otherwise. A run
  lies inside the image when its first cluster is at a non-negative byte offset and
  its last cluster ends within the bytes of the image, at an offset that the handle
  can seek to. The concrete partition has 512-byte clusters on an image of two
  clusters, the first filled with \<^verbatim>\<open>EB\<close> and the second with \<^verbatim>\<open>4A\<close>.
\<close>

definition cluster_bytes :: "image_file \<Rightarrow> partition \<Rightarrow> int \<Rightarrow> bytes" where
  "cluster_bytes img p cluster_number =
     take (p_cluster_size p)
       (drop (nat (p_offset p + cluster_number * int (p_cluster_size p))) (im_data img))"

definition zero_filled :: "data_run \<Rightarrow> bool" where
  "zero_filled run \<longleftrightarrow> sparse run \<or> start_cluster run = 0"

definition run_bytes :: "image_file \<Rightarrow> partition \<Rightarrow> data_run \<Rightarrow> bytes" where
  "run_bytes img p run =
     (if zero_filled run then replicate (run_length run * p_cluster_size p) 0
      else concat (map (\<lambda>i. cluster_bytes img p (start_cluster run + int i))
                    [0..<run_length run]))"

definition inside_image :: "image_file \<Rightarrow> partition \<Rightarrow> data_run \<Rightarrow> bool" where
  "inside_image img p run \<longleftrightarrow>
     0 \<le> p_offset p + start_cluster run * int (p_cluster_size p)
     \<and> p_offset p + (start_cluster run + int (run_length run)) * int (p_cluster_size p)
         \<le> int (length (im_data img))
     \<and> p_offset p + (start_cluster run + int (run_length run)) * int (p_cluster_size p)
         \<le> int (im_seek_max img)
     \<and> p_offset p + (start_cluster run + int (run_length run)) * int (p_cluster_size p)
         < 2 ^ 63"

definition small_partition :: partition where
  "small_partition =
     \<lparr>p_offset = 0, p_bytes_per_sector = 512, p_sectors_per_cluster = 1,
      p_cluster_size = 512, p_mft_offset = 2048, p_mft_entry_size = 1024\<rparr>"

definition two_cluster_image :: image_file where
  "two_cluster_image = on_disk (replicate 512 0xEB @ replicate 512 0x4A)"

text \<open>
  The test that the fallback scan applies to a candidate at \<open>offset\<close>, in words: the
  namespace byte at \<open>offset + 0x41\<close> is at most 3, the name length at \<open>offset + 0x40\<close>
  is between 1 and 255, the name lies inside the payload, its UTF-16LE decoding is not
  empty and consists of characters that are printable or a space, a full stop or a
  tab, and the low 48 bits of the parent reference are below \<open>2^36\<close>
  (\<^verbatim>\<open>0x1000000000\<close>). \<open>ascii_printable\<close> is \<^verbatim>\<open>str.isprintable\<close> on ASCII.
  Payloads of 72 bytes with one candidate at offset 0, namespace 1: parent entry
  \<open>2^36\<close> and name \<open>A\<close>; parent entry 5 and a tab as name; parent entry 5 and name
  length 4 with room for three characters; parent entry 5 and a lone surrogate as
  name. A payload of 80 bytes with a candidate at offset 8, parent entry 5, name \<open>A\<close>.
\<close>

definition candidate_name :: "bytes \<Rightarrow> nat \<Rightarrow> ustr" where
  "candidate_name data offset =
     decode_ignore (slice data (offset + 0x42)
                      (offset + 0x42 + 2 * unat (data ! (offset + 0x40))))"

definition accepted_candidate :: "(nat \<Rightarrow> bool) \<Rightarrow> bytes \<Rightarrow> nat \<Rightarrow> bool" where
  "accepted_candidate isprintable data offset \<longleftrightarrow>
     unat (data ! (offset + 0x41)) \<le> 3
     \<and> 1 \<le> unat (data ! (offset + 0x40)) \<and> unat (data ! (offset + 0x40)) \<le> 255
     \<and> offset + 0x42 + 2 * unat (data ! (offset + 0x40)) \<le> length data
     \<and> candidate_name data offset \<noteq> []
     \<and> (\<forall>c\<in>set (candidate_name data offset). isprintable c \<or> c = 32 \<or> c = 46 \<or> c = 9)
     \<and> from_bytes_little (slice data offset (offset + 8)) mod 2 ^ 48 < 2 ^ 36"

definition ascii_printable :: "nat \<Rightarrow> bool" where
  "ascii_printable c \<longleftrightarrow> 32 \<le> c \<and> c < 127"

definition wide_parent_payload :: bytes where
  "wide_parent_payload =
     [0x00, 0x00, 0x00, 0x00, 0x10, 0x00, 0x00, 0x00] @ replicate 56 0 @
     [0x01, 0x01, 0x41, 0x00] @ replicate 4 0"

definition second_probe_payload :: bytes where
  "second_probe_payload =
     replicate 8 0 @ [0x05, 0x00, 0x00, 0x00, 0x00, 0x00, 0x00, 0x00] @ replicate 56 0 @
     [0x01, 0x01, 0x41, 0x00] @ replicate 4 0"

definition tab_name_payload :: bytes where
  "tab_name_payload =
     [0x05, 0x00, 0x00, 0x00, 0x00, 0x00, 0x00, 0x00] @ replicate 56 0 @
     [0x01, 0x01, 0x09, 0x00] @ replicate 4 0"

definition long_name_payload :: bytes where
  "long_name_payload =
     [0x05, 0x00, 0x00, 0x00, 0x00, 0x00, 0x00, 0x00] @ replicate 56 0 @
     [0x04, 0x01, 0x41, 0x00, 0x41, 0x00, 0x41, 0x00]"

definition surrogate_name_payload :: bytes where
  "surrogate_name_payload =
     [0x05, 0x00, 0x00, 0x00, 0x00, 0x00, 0x00, 0x00] @ replicate 56 0 @
     [0x01, 0x01, 0x00, 0xD8] @ replicate 4 0"

text \<open>
  A move of the journal scanner keeps the alignment when it is not the consumption of
  a record whose length is not a multiple of 8, and not a failed resynchronisation
  that dropped a number of bytes that is not a multiple of 8. A list of moves with
  their positions is aligned as far as the moves keep the alignment: the position of
  a move is a multiple of 8 unless a move before it did not keep the alignment.
  Journals: two records of version 2 and 60 bytes each, back to back; 68 bytes that
  are no record (a length field of \<^verbatim>\<open>FF FF FF FF\<close>, then zero bytes)
  followed by one such record; and a record of version 2 and 64 bytes.
\<close>

fun aligned_move :: "usn_move \<Rightarrow> bool" where
  "aligned_move (Record n r) = (8 dvd n)"
| "aligned_move (ResyncFailed n) = (8 dvd n)"
| "aligned_move other = True"

fun aligned_until :: "(nat \<times> usn_move) list \<Rightarrow> bool" where
  "aligned_until [] = True"
| "aligned_until ((position, move) # rest) =
     (8 dvd position \<and> (aligned_move move \<longrightarrow> aligned_until rest))"

definition short_record :: bytes where
  "short_record = [0x3C, 0x00, 0x00, 0x00, 0x02, 0x00, 0x00, 0x00] @ replicate 52 0"

definition two_short_records :: bytes where
  "two_short_records = short_record @ short_record"

definition record_after_garbage :: bytes where
  "record_after_garbage = [0xFF, 0xFF, 0xFF, 0xFF] @ replicate 64 0 @ short_record"

definition aligned_record :: bytes where
  "aligned_record = [0x40, 0x00, 0x00, 0x00, 0x02, 0x00, 0x00, 0x00] @ replicate 56 0"

text \<open>The buffer of the scanner is the part of the file from
  \<^verbatim>\<open>processed_bytes\<close> up to what has been read.\<close>

definition window :: "bytes \<Rightarrow> scanner \<Rightarrow> bool" where
  "window f s \<longleftrightarrow> sc_buffer s @ sc_rest s = drop (sc_processed s) f"


text \<open>
  What the unified timeline holds, in words. An MFT record gives a create event when
  its SI-created timestamp is not empty, then a modify event when its SI-modified
  timestamp is not empty and differs from SI-created. A log record is shown when its
  filename or its event label is not empty. The summary of a unified record is its
  source, its event and its timestamp. \<open>records_of\<close> is the list of the records
  of a source, empty when the source is absent.
\<close>

definition mft_events_of :: "mft_record \<Rightarrow> (string \<times> string \<times> string) list" where
  "mft_events_of r =
     (if mr_si_created r \<noteq> [] then [(''MFT'', ''FileCreate (SI)'', mr_si_created r)] else []) @
     (if mr_si_modified r \<noteq> [] \<and> mr_si_modified r \<noteq> mr_si_created r
      then [(''MFT'', ''FileModify (SI)'', mr_si_modified r)] else [])"

definition shown :: "log_record \<Rightarrow> bool" where
  "shown r \<longleftrightarrow> lr_filename r \<noteq> [] \<or> lr_event r \<noteq> []"

definition summary :: "unified_record \<Rightarrow> string \<times> string \<times> string" where
  "summary u = (ur_source u, ur_event u, ur_timestamp u)"

definition records_of :: "'a list option \<Rightarrow> 'a list" where
  "records_of source = (case source of None \<Rightarrow> [] | Some records \<Rightarrow> records)"

definition journal_of ::
  "(usn_record list \<times> (int \<rightharpoonup> ustr) option) option \<Rightarrow> usn_record list" where
  "journal_of source = (case source of None \<Rightarrow> [] | Some (records, path_cache) \<Rightarrow> records)"

text \<open>Three MFT records (a create event only, both events, a modify event only), one
  journal record and two log records, the first with neither filename nor event.\<close>

definition sample_mft :: "mft_record list" where
  "sample_mft =
     [(MFTRecord 5 1 1 True False)\<lparr>mr_si_created := ''2024-03'', mr_si_modified := ''2024-03'',
                                    mr_filename := [0x61]\<rparr>,
      (MFTRecord 6 1 1 True False)\<lparr>mr_si_created := ''2024-01'', mr_si_modified := ''2024-02'',
                                    mr_filename := [0x62]\<rparr>,
      (MFTRecord 7 1 1 True False)\<lparr>mr_si_modified := ''2023-07'', mr_filename := [0x63]\<rparr>]"

definition sample_journal :: "usn_record list" where
  "sample_journal = [UsnRecord\<lparr>u_timestamp := ''2020-01'', u_reason := 0x100,
                               u_filename := [0x64]\<rparr>]"

definition sample_log :: "log_record list" where
  "sample_log =
     [LogRecord\<lparr>lr_timestamp := ''2018-05''\<rparr>,
      LogRecord\<lparr>lr_timestamp := ''2019-12'', lr_event := ''Rename'', lr_filename := [0x65]\<rparr>]"

section \<open>Verification\<close>

subsection \<open>Bytes\<close>

lemma unat_byte_less: "unat (b :: byte) < 256"
  using unsigned_less [of b, where 'a = nat] by simp

lemma byte_top_bit: "((b :: byte) AND 0x80 \<noteq> 0) = (128 \<le> unat b)"
proof -
  have "(b AND 0x80 = 0) = (\<not> bit b 7)"
    using and_exp_eq_0_iff_not_bit [of b 7] by simp
  moreover have "bit b 7 = bit (unat b) 7"
    by (simp add: bit_unsigned_iff)
  moreover have "bit (unat b) 7 = odd (unat b div 128)"
    by (simp add: bit_iff_odd_drop_bit drop_bit_eq_div)
  moreover have "unat b div 128 = (if 128 \<le> unat b then 1 else 0)"
    using unat_byte_less [of b] by (simp add: div_eq_0_iff) arith
  ultimately show ?thesis
    by simp
qed

lemma from_bytes_little_bound: "from_bytes_little bs < 256 ^ length bs"
proof (induction bs)
  case Nil
  show ?case by simp
next
  case (Cons b bs)
  have "unat b < 256"
    by (rule unat_byte_less)
  with Cons show ?case by simp
qed

lemma slice_length: "j \<le> length xs \<Longrightarrow> length (slice xs i j) = j - i"
  by (simp add: slice_def)

subsection \<open>Fixup\<close>

lemma parse_accepts:
  assumes "48 \<le> length (e_data e)" and "slice (e_data e) 0 4 = MFT_SIGNATURE"
  shows "fst (parse e)" and "e_is_valid (snd (parse e))"
  using assms
  by (simp_all add: parse_def Let_def MFT_SIGNATURE_def MFT_SIGNATURE_BAD_def)

lemma to_record_valid: "e_is_valid e \<Longrightarrow> to_record cal e \<noteq> None"
  by (simp add: to_record_def Let_def)

text \<open>
  C1. An entry whose first sector tail (\<^verbatim>\<open>11 22\<close> at bytes 510..512) differs from
  the signature word of its fixup array (\<^verbatim>\<open>05 00\<close> at bytes 48..50, fixup count 3)
  is not rejected: \<^verbatim>\<open>parse\<close> returns \<^verbatim>\<open>True\<close> and \<^verbatim>\<open>to_record\<close>
  produces a record from it.
\<close>

theorem torn_entry_accepted:
  "length torn_entry = 1024
   \<and> slice torn_entry 0 4 = MFT_SIGNATURE
   \<and> from_bytes_little (slice torn_entry 4 6) = 48
   \<and> from_bytes_little (slice torn_entry 6 8) = 3
   \<and> slice torn_entry 48 50 = [0x05, 0x00]
   \<and> slice torn_entry 510 512 = [0x11, 0x22]
   \<and> fst (parse (MFTEntry torn_entry 0))
   \<and> to_record plain_calendar (snd (parse (MFTEntry torn_entry 0))) \<noteq> None"
proof -
  have len: "length torn_entry = 1024"
    by (simp add: torn_entry_def)
  have sig: "slice torn_entry 0 4 = MFT_SIGNATURE"
    by (simp add: torn_entry_def slice_def MFT_SIGNATURE_def)
  have fo: "from_bytes_little (slice torn_entry 4 6) = 48"
    by (simp add: torn_entry_def slice_def)
  have fc: "from_bytes_little (slice torn_entry 6 8) = 3"
    by (simp add: torn_entry_def slice_def)
  have s1: "slice torn_entry 48 50 = [0x05, 0x00]"
    by (simp add: torn_entry_def slice_def)
  have s2: "slice torn_entry 510 512 = [0x11, 0x22]"
    by (simp add: torn_entry_def slice_def)
  have p: "fst (parse (MFTEntry torn_entry 0))"
    by (rule parse_accepts) (simp_all add: MFTEntry_def len sig)
  have v: "e_is_valid (snd (parse (MFTEntry torn_entry 0)))"
    by (rule parse_accepts) (simp_all add: MFTEntry_def len sig)
  then have r: "to_record plain_calendar (snd (parse (MFTEntry torn_entry 0))) \<noteq> None"
    by (rule to_record_valid)
  from len sig fo fc s1 s2 p r show ?thesis by blast
qed

subsection \<open>The concrete entries\<close>

lemma length_entry_header: "length entry_header = 56"
  by (simp add: entry_header_def)

lemma length_file_name_attr: "length (file_name_attr ns ch) = 96"
  by (simp add: file_name_attr_def)

lemma length_two_name_entry: "length (two_name_entry ns1 ch1 ns2 ch2) = 1024"
  by (simp add: two_name_entry_def length_entry_header length_file_name_attr)

lemma parse_file_name_attr:
  "\<exists>a. parse_attribute FILE_NAME (file_name_attr ns ch) = Some a
       \<and> a_type a = FILE_NAME \<and> fn_get fn_namespace a = unat ns
       \<and> get_filename a = [unat ch] \<and> fn_get fn_parent_ref a = 0x5000000000005"
  using unat_byte_less [of ch]
  by (simp add: parse_attribute_def file_name_attr_def Let_def slice_def
        parse_resident_attr_def parse_filename_def attr_data_or_empty_def
        FILE_NAME_def STANDARD_INFORMATION_def fn_get_def get_filename_def
        decode_or_empty_def nth_append)

lemma take_file_name_attr:
  "slice (file_name_attr ns ch @ rest) 0 4 = [0x30, 0x00, 0x00, 0x00]"
  "slice (file_name_attr ns ch @ rest) 4 8 = [0x60, 0x00, 0x00, 0x00]"
  by (simp_all add: file_name_attr_def slice_def)

lemma slice_shift: "length xs \<le> i \<Longrightarrow> slice (xs @ ys) i j = slice ys (i - length xs) (j - length xs)"
  by (simp add: slice_def)

lemma slice_prefix: "slice (xs @ ys) 0 (length xs) = xs"
  by (simp add: slice_def)

lemma attribute_at_file_name:
  assumes "length pre = offset"
  shows "attribute_at (pre @ file_name_attr ns ch @ rest) offset
           = Some (parse_attribute FILE_NAME (file_name_attr ns ch), 96)"
proof -
  have a: "slice (pre @ file_name_attr ns ch @ rest) offset (offset + 4) = [0x30, 0x00, 0x00, 0x00]"
    using assms take_file_name_attr(1) [of ns ch rest] by (simp add: slice_shift)
  have b: "slice (pre @ file_name_attr ns ch @ rest) (offset + 4) (offset + 8) = [0x60, 0x00, 0x00, 0x00]"
    using assms take_file_name_attr(2) [of ns ch rest] by (simp add: slice_shift)
  have c: "slice (pre @ file_name_attr ns ch @ rest) offset (offset + 96) = file_name_attr ns ch"
    using assms slice_prefix [of "file_name_attr ns ch" rest]
    by (simp add: slice_shift length_file_name_attr)
  show ?thesis
    using assms by (simp add: attribute_at_def a b c Let_def length_file_name_attr FILE_NAME_def)
qed

lemma attribute_at_end:
  assumes "length pre = offset"
  shows "attribute_at (pre @ [0xFF, 0xFF, 0xFF, 0xFF] @ rest) offset = None"
proof -
  have "slice (pre @ [0xFF, 0xFF, 0xFF, 0xFF] @ rest) offset (offset + 4) = [0xFF, 0xFF, 0xFF, 0xFF]"
    using assms by (simp add: slice_def)
  then show ?thesis
    by (simp add: attribute_at_def)
qed

lemma attributes_two_name_entry:
  "parse_attributes_loop (two_name_entry ns1 ch1 ns2 ch2) 56 1024 []
     = [the (parse_attribute FILE_NAME (file_name_attr ns1 ch1)),
        the (parse_attribute FILE_NAME (file_name_attr ns2 ch2))]"
proof -
  let ?d = "two_name_entry ns1 ch1 ns2 ch2"
  obtain a1 where a1: "parse_attribute FILE_NAME (file_name_attr ns1 ch1) = Some a1"
    using parse_file_name_attr [of ns1 ch1] by blast
  obtain a2 where a2: "parse_attribute FILE_NAME (file_name_attr ns2 ch2) = Some a2"
    using parse_file_name_attr [of ns2 ch2] by blast
  have s1: "attribute_at ?d 56 = Some (Some a1, 96)"
    unfolding two_name_entry_def
    using attribute_at_file_name [of entry_header 56 ns1 ch1] a1
    by (simp add: length_entry_header)
  have s2: "attribute_at ?d 152 = Some (Some a2, 96)"
    unfolding two_name_entry_def
    using attribute_at_file_name [of "entry_header @ file_name_attr ns1 ch1" 152 ns2 ch2] a2
    by (simp add: length_entry_header length_file_name_attr)
  have s3: "attribute_at ?d 248 = None"
    unfolding two_name_entry_def
    using attribute_at_end [of "entry_header @ file_name_attr ns1 ch1 @ file_name_attr ns2 ch2" 248]
    by (simp add: length_entry_header length_file_name_attr)
  have "parse_attributes_loop ?d 56 1024 [] = parse_attributes_loop ?d 152 1024 [a1]"
    by (subst parse_attributes_loop.simps) (simp add: s1 length_two_name_entry)
  also have "\<dots> = parse_attributes_loop ?d 248 1024 [a1, a2]"
    by (subst parse_attributes_loop.simps) (simp add: s2 length_two_name_entry)
  also have "\<dots> = [a1, a2]"
    by (subst parse_attributes_loop.simps) (simp add: s3 length_two_name_entry)
  finally show ?thesis
    by (simp add: a1 a2)
qed

lemma header_fields:
  "slice (entry_header @ rest) 0 4 = MFT_SIGNATURE"
  "from_bytes_little (slice (entry_header @ rest) 6 8) = 0"
  "from_bytes_little (slice (entry_header @ rest) 20 22) = 56"
  "from_bytes_little (slice (entry_header @ rest) 22 24) = 1"
  "from_bytes_little (slice (entry_header @ rest) 24 28) = 1024"
  by (simp_all add: entry_header_def slice_def MFT_SIGNATURE_def)

lemma parse_two_name_entry:
  "parse (MFTEntry (two_name_entry ns1 ch1 ns2 ch2) n) =
     (True, \<lparr>e_data = two_name_entry ns1 ch1 ns2 ch2, e_entry_number = n,
             e_attributes = [the (parse_attribute FILE_NAME (file_name_attr ns1 ch1)),
                             the (parse_attribute FILE_NAME (file_name_attr ns2 ch2))],
             e_is_valid = True, e_flags = 1,
             e_sequence = from_bytes_little (slice (two_name_entry ns1 ch1 ns2 ch2) 16 18)\<rparr>)"
proof -
  have sig: "slice (two_name_entry ns1 ch1 ns2 ch2) 0 4 = MFT_SIGNATURE"
    and cnt: "from_bytes_little (slice (two_name_entry ns1 ch1 ns2 ch2) 6 8) = 0"
    and off: "from_bytes_little (slice (two_name_entry ns1 ch1 ns2 ch2) 20 22) = 56"
    and flg: "from_bytes_little (slice (two_name_entry ns1 ch1 ns2 ch2) 22 24) = 1"
    and use: "from_bytes_little (slice (two_name_entry ns1 ch1 ns2 ch2) 24 28) = 1024"
    unfolding two_name_entry_def by (rule header_fields)+
  show ?thesis
    by (simp add: parse_def MFTEntry_def Let_def length_two_name_entry sig cnt off flg use
          parse_attributes_def attributes_two_name_entry MFT_SIGNATURE_def MFT_SIGNATURE_BAD_def)
qed

subsection \<open>Data runs\<close>

lemma last_top_bit:
  "bs \<noteq> [] \<Longrightarrow> (last bs AND 0x80 \<noteq> 0) = (2 ^ (8 * length bs - 1) \<le> from_bytes_little bs)"
proof (induction bs)
  case Nil
  then show ?case by simp
next
  case (Cons b bs)
  show ?case
  proof (cases "bs = []")
    case True
    then show ?thesis by (simp add: byte_top_bit)
  next
    case False
    then obtain n where n: "length bs = Suc n"
      by (cases bs) auto
    have "8 * length (b # bs) - 1 = 8 + (8 * length bs - 1)"
      by (simp add: n)
    then have pw: "(2::nat) ^ (8 * length (b # bs) - 1) = 256 * 2 ^ (8 * length bs - 1)"
      by (simp only: power_add) simp
    have "unat b < 256"
      by (rule unat_byte_less)
    then have "(256 * 2 ^ (8 * length bs - 1) \<le> unat b + 256 * from_bytes_little bs)
               = (2 ^ (8 * length bs - 1) \<le> from_bytes_little bs)"
      by arith
    with Cons.IH [OF False] False pw show ?thesis
      by simp
  qed
qed

lemma run_offset_signed:
  assumes "bs \<noteq> []"
  shows "(if last bs AND 0x80 \<noteq> 0
          then int (from_bytes_little bs) - 2 ^ (length bs * 8)
          else int (from_bytes_little bs)) = signed_little bs"
  using last_top_bit [OF assms]
  by (simp add: signed_little_def twos_complement_def mult.commute not_less)

lemma data_run_at_nonsparse:
  assumes "decodable_run data offset lsz osz" and "0 < osz"
  shows "data_run_at data offset cur =
     Some (\<lparr>start_cluster = cur + signed_little (slice data (offset + 1 + lsz) (offset + 1 + lsz + osz)),
            run_length = from_bytes_little (slice data (offset + 1) (offset + 1 + lsz)),
            sparse = False\<rparr>,
           offset + 1 + lsz + osz,
           cur + signed_little (slice data (offset + 1 + lsz) (offset + 1 + lsz + osz)))"
proof -
  let ?ob = "slice data (offset + 1 + lsz) (offset + 1 + lsz + osz)"
  have len: "length ?ob = osz"
    using assms by (simp add: slice_length decodable_run_def)
  then have ne: "?ob \<noteq> []"
    using assms(2) by auto
  have h: "data ! offset \<noteq> 0" "unat (data ! offset AND 0x0F) = lsz"
      "unat (drop_bit 4 (data ! offset) AND 0x0F) = osz" "lsz \<noteq> 0"
      "offset + 1 + lsz + osz \<le> length data"
    using assms(1) by (simp_all add: decodable_run_def)
  have s: "(if last ?ob AND 0x80 \<noteq> 0
            then int (from_bytes_little ?ob) - 2 ^ (osz * 8)
            else int (from_bytes_little ?ob)) = signed_little ?ob"
    by (rule run_offset_signed [OF ne, unfolded len])
  show ?thesis
    unfolding data_run_at_def Let_def h(2,3) s
    using h(1,4,5) assms(2) by simp
qed

lemma data_run_at_sparse:
  assumes "decodable_run data offset lsz 0"
  shows "data_run_at data offset cur =
     Some (\<lparr>start_cluster = 0,
            run_length = from_bytes_little (slice data (offset + 1) (offset + 1 + lsz)),
            sparse = True\<rparr>, offset + 1 + lsz, cur)"
proof -
  have h: "data ! offset \<noteq> 0" "unat (data ! offset AND 0x0F) = lsz"
      "unat (drop_bit 4 (data ! offset) AND 0x0F) = 0" "lsz \<noteq> 0"
      "offset + 1 + lsz \<le> length data"
    using assms by (simp_all add: decodable_run_def)
  show ?thesis
    unfolding data_run_at_def Let_def h(2,3)
    using h(1,4,5) by simp
qed

lemma header_nibbles:
  assumes "l \<le> 15" and "k \<le> 15"
  shows "unat (run_header l k AND 0x0F) = l"
    and "unat (drop_bit 4 (run_header l k) AND 0x0F) = k"
    and "unat (run_header l k) = 16 * k + l"
proof -
  have m: "(0x0F :: nat) = mask 4"
    by (simp add: mask_eq_exp_minus_1)
  have "(16 * k + l) mod 256 = 16 * k + l"
    using assms by simp
  then show u: "unat (run_header l k) = 16 * k + l"
    by (simp only: run_header_def unat_of_nat) simp
  have "unat (run_header l k AND 0x0F) = (16 * k + l) AND 0x0F"
    by (simp add: unsigned_and_eq u)
  also have "\<dots> = (16 * k + l) mod 16"
    by (simp only: m flip: take_bit_eq_mask) (simp add: take_bit_eq_mod)
  finally show "unat (run_header l k AND 0x0F) = l"
    using assms by simp
  have d: "unat (drop_bit 4 (run_header l k)) = (16 * k + l) div 16"
    unfolding drop_bit_eq_div using u by (simp add: unat_div)
  have "unat (drop_bit 4 (run_header l k) AND 0x0F) = ((16 * k + l) div 16) AND 0x0F"
    by (simp add: unsigned_and_eq d)
  also have "\<dots> = ((16 * k + l) div 16) mod 16"
    by (simp only: m flip: take_bit_eq_mask) (simp add: take_bit_eq_mod)
  finally show "unat (drop_bit 4 (run_header l k) AND 0x0F) = k"
    using assms by simp
qed

lemma encoded_run_decodable:
  assumes "run_field (lb, ob)"
  shows "decodable_run (pre @ encode_run (lb, ob) @ rest) (length pre) (length lb) (length ob)"
    and "slice (pre @ encode_run (lb, ob) @ rest) (length pre + 1) (length pre + 1 + length lb) = lb"
    and "slice (pre @ encode_run (lb, ob) @ rest) (length pre + 1 + length lb)
           (length pre + 1 + length lb + length ob) = ob"
proof -
  have b: "1 \<le> length lb" "length lb \<le> 15" "length ob \<le> 15"
    using assms by (simp_all add: run_field_def)
  let ?h = "run_header (length lb) (length ob)"
  have n: "(pre @ encode_run (lb, ob) @ rest) ! length pre = ?h"
    by (simp add: encode_run_def)
  have "lb \<noteq> []"
    using b(1) by auto
  then have "unat ?h \<noteq> 0"
    using header_nibbles(3) [OF b(2,3)] by simp
  then have z: "?h \<noteq> 0"
    by auto
  have len: "length pre + 1 + length lb + length ob \<le> length (pre @ encode_run (lb, ob) @ rest)"
    by (simp add: encode_run_def)
  show "decodable_run (pre @ encode_run (lb, ob) @ rest) (length pre) (length lb) (length ob)"
    unfolding decodable_run_def n
    using z \<open>lb \<noteq> []\<close> header_nibbles(1,2) [OF b(2,3)] len
    by (simp add: encode_run_def)
  show "slice (pre @ encode_run (lb, ob) @ rest) (length pre + 1) (length pre + 1 + length lb) = lb"
    by (simp add: slice_def encode_run_def)
  show "slice (pre @ encode_run (lb, ob) @ rest) (length pre + 1 + length lb)
           (length pre + 1 + length lb + length ob) = ob"
    by (simp add: slice_def encode_run_def)
qed

lemma loop_at_end:
  assumes "tail = [] \<or> hd tail = 0"
  shows "parse_data_runs_loop (pre @ tail) (length pre) lcn runs = runs"
proof (cases tail)
  case Nil
  then show ?thesis
    by (subst parse_data_runs_loop.simps) simp
next
  case (Cons b bs)
  then have "b = 0"
    using assms by simp
  then show ?thesis
    using Cons by (subst parse_data_runs_loop.simps) (simp add: data_run_at_def)
qed

lemma loop_decodes_fields:
  assumes "tail = [] \<or> hd tail = 0"
  shows "(\<forall>f\<in>set fs. run_field f) \<Longrightarrow>
     parse_data_runs_loop (pre @ concat (map encode_run fs) @ tail) (length pre) lcn runs
       = runs @ decoded_runs lcn fs"
proof (induction fs arbitrary: pre lcn runs)
  case Nil
  show ?case
    using loop_at_end [OF assms] by simp
next
  case (Cons f fs)
  obtain lb ob where f: "f = (lb, ob)"
    by (cases f)
  have rf: "run_field (lb, ob)"
    using Cons.prems f by simp
  let ?rest = "concat (map encode_run fs) @ tail"
  let ?data = "pre @ encode_run (lb, ob) @ ?rest"
  have d: "decodable_run ?data (length pre) (length lb) (length ob)"
    by (rule encoded_run_decodable(1) [OF rf])
  have sl: "slice ?data (length pre + 1) (length pre + 1 + length lb) = lb"
    by (rule encoded_run_decodable(2) [OF rf])
  have so: "slice ?data (length pre + 1 + length lb) (length pre + 1 + length lb + length ob) = ob"
    by (rule encoded_run_decodable(3) [OF rf])
  have lt: "length pre < length ?data"
    by (simp add: encode_run_def)
  have nx: "length pre + 1 + length lb + length ob = length (pre @ encode_run (lb, ob))"
    by (simp add: encode_run_def)
  have ih: "\<And>lcn runs. parse_data_runs_loop ?data (length (pre @ encode_run (lb, ob))) lcn runs
              = runs @ decoded_runs lcn fs"
    using Cons.IH [of "pre @ encode_run (lb, ob)"] Cons.prems by simp
  have dt: "pre @ concat (map encode_run (f # fs)) @ tail = ?data"
    by (simp add: f)
  show ?case
  proof (cases "ob = []")
    case True
    have "data_run_at ?data (length pre) lcn =
            Some (\<lparr>start_cluster = 0, run_length = from_bytes_little lb, sparse = True\<rparr>,
                  length (pre @ encode_run (lb, ob)), lcn)"
      using data_run_at_sparse [of ?data "length pre" "length lb" lcn] d sl True nx by simp
    then have "parse_data_runs_loop ?data (length pre) lcn runs
            = parse_data_runs_loop ?data (length (pre @ encode_run (lb, ob))) lcn
                (runs @ [\<lparr>start_cluster = 0, run_length = from_bytes_little lb, sparse = True\<rparr>])"
      using lt by (subst parse_data_runs_loop.simps) simp
    then show ?thesis
      unfolding dt ih using True by (simp add: f)
  next
    case False
    then have o: "0 < length ob"
      by simp
    have "data_run_at ?data (length pre) lcn =
            Some (\<lparr>start_cluster = lcn + signed_little ob, run_length = from_bytes_little lb,
                    sparse = False\<rparr>,
                  length (pre @ encode_run (lb, ob)), lcn + signed_little ob)"
      using data_run_at_nonsparse [OF d o, of lcn] sl so nx by simp
    then have "parse_data_runs_loop ?data (length pre) lcn runs
            = parse_data_runs_loop ?data (length (pre @ encode_run (lb, ob)))
                (lcn + signed_little ob)
                (runs @ [\<lparr>start_cluster = lcn + signed_little ob,
                          run_length = from_bytes_little lb, sparse = False\<rparr>])"
      using lt by (subst parse_data_runs_loop.simps) simp
    then show ?thesis
      unfolding dt ih using False by (simp add: f)
  qed
qed

text \<open>
  C3. Decoding the seven data-run bytes \<^verbatim>\<open>33 00 00 01 00 00 FF\<close> with running
  LCN 0 yields exactly one run, with start cluster \<open>-65536\<close>, length \<open>65536\<close>, not
  sparse. In general, on a buffer that holds a list of run fields, ended by a zero
  byte or by the end of the buffer, the loop started at the first of them with a
  running LCN returns the runs it already had followed by the decoding of the fields:
  the offset bytes of a run are read as a sign-extended two's complement little-endian
  integer and added to the running LCN, which gives the start of that run and the
  running LCN of the next, and a run with no offset bytes is sparse and leaves the
  running LCN unchanged. \<^verbatim>\<open>_parse_data_runs\<close> is the loop started at offset 0
  with running LCN 0 and no runs.
\<close>

theorem data_run_signed_offsets:
  "parse_data_runs [0x33, 0x00, 0x00, 0x01, 0x00, 0x00, 0xFF]
     = [\<lparr>start_cluster = - 65536, run_length = 65536, sparse = False\<rparr>]
   \<and> ((\<forall>f\<in>set fs. run_field f) \<and> (tail = [] \<or> hd tail = 0) \<longrightarrow>
        parse_data_runs_loop (pre @ concat (map encode_run fs) @ tail) (length pre) lcn runs
          = runs @ decoded_runs lcn fs)
   \<and> ((\<forall>f\<in>set fs. run_field f) \<and> (tail = [] \<or> hd tail = 0) \<longrightarrow>
        parse_data_runs (concat (map encode_run fs) @ tail) = decoded_runs 0 fs)"
proof (intro conjI impI)
  show "parse_data_runs [0x33, 0x00, 0x00, 0x01, 0x00, 0x00, 0xFF]
     = [\<lparr>start_cluster = - 65536, run_length = 65536, sparse = False\<rparr>]"
    by (simp add: parse_data_runs_def parse_data_runs_loop.simps data_run_at_def slice_def Let_def)
next
  assume "(\<forall>f\<in>set fs. run_field f) \<and> (tail = [] \<or> hd tail = 0)"
  then show "parse_data_runs_loop (pre @ concat (map encode_run fs) @ tail) (length pre) lcn runs
          = runs @ decoded_runs lcn fs"
    using loop_decodes_fields [of tail fs pre lcn runs] by simp
next
  assume "(\<forall>f\<in>set fs. run_field f) \<and> (tail = [] \<or> hd tail = 0)"
  then show "parse_data_runs (concat (map encode_run fs) @ tail) = decoded_runs 0 fs"
    using loop_decodes_fields [of tail fs "[]" 0 "[]"] by (simp add: parse_data_runs_def)
qed

theorem data_run_signed_offsets_witness:
  "concat (map encode_run [([0x00, 0x00, 0x01], [0x00, 0x00, 0xFF]), ([0x10, 0x27], []), ([0x05], [0x10])])
       @ [0x00]
     = [0x33, 0x00, 0x00, 0x01, 0x00, 0x00, 0xFF, 0x02, 0x10, 0x27, 0x11, 0x05, 0x10, 0x00]
   \<and> signed_little [0x00, 0x00, 0xFF] = - 65536
   \<and> parse_data_runs
       [0x33, 0x00, 0x00, 0x01, 0x00, 0x00, 0xFF, 0x02, 0x10, 0x27, 0x11, 0x05, 0x10, 0x00]
     = [\<lparr>start_cluster = - 65536, run_length = 65536, sparse = False\<rparr>,
        \<lparr>start_cluster = 0, run_length = 10000, sparse = True\<rparr>,
        \<lparr>start_cluster = - 65520, run_length = 5, sparse = False\<rparr>]"
proof -
  let ?fs = "[([0x00, 0x00, 0x01], [0x00, 0x00, 0xFF]), ([0x10, 0x27], []), ([0x05], [0x10])]
                   :: (bytes \<times> bytes) list"
  have e: "concat (map encode_run ?fs) @ [0x00]
     = [0x33, 0x00, 0x00, 0x01, 0x00, 0x00, 0xFF, 0x02, 0x10, 0x27, 0x11, 0x05, 0x10, 0x00]"
    by (simp add: encode_run_def run_header_def)
  have s: "signed_little [0x00, 0x00, 0xFF] = - 65536" "signed_little [0x10] = 16"
    by (simp_all add: signed_little_def twos_complement_def)
  have h: "(\<forall>f\<in>set ?fs. run_field f) \<and> ([0x00 :: byte] = [] \<or> hd [0x00 :: byte] = 0)"
    by (simp add: run_field_def)
  from data_run_signed_offsets [of ?fs "[0x00]"] h
  have "parse_data_runs (concat (map encode_run ?fs) @ [0x00]) = decoded_runs 0 ?fs"
    by blast
  then have "parse_data_runs
       [0x33, 0x00, 0x00, 0x01, 0x00, 0x00, 0xFF, 0x02, 0x10, 0x27, 0x11, 0x05, 0x10, 0x00]
     = [\<lparr>start_cluster = - 65536, run_length = 65536, sparse = False\<rparr>,
        \<lparr>start_cluster = 0, run_length = 10000, sparse = True\<rparr>,
        \<lparr>start_cluster = - 65520, run_length = 5, sparse = False\<rparr>]"
    unfolding e by (simp add: s)
  with e s(1) show ?thesis by blast
qed

subsection \<open>Best name\<close>

lemma best_filename_loop_eq:
  "best_filename_loop attrs best =
     (case find is_win32_name attrs of
        Some attr \<Rightarrow> Some attr
      | None \<Rightarrow> (case best of Some b \<Rightarrow> Some b | None \<Rightarrow> find is_file_name attrs))"
proof (induction attrs arbitrary: best)
  case Nil
  show ?case by (cases best) simp_all
next
  case (Cons attr rest)
  show ?case
    by (cases best) (simp_all add: Cons.IH is_win32_name_def is_file_name_def Let_def
                       split: option.splits)
qed

lemma best_filename_loop_preferred: "best_filename_loop attrs None = preferred_name attrs"
  by (simp add: best_filename_loop_eq preferred_name_def split: option.splits)

lemma to_record_filename:
  "e_is_valid e \<Longrightarrow>
     map_option mr_filename (to_record cal e) =
       Some (case preferred_name (e_attributes e) of None \<Rightarrow> [] | Some attr \<Rightarrow> get_filename attr)"
  by (simp add: to_record_def Let_def best_filename_loop_preferred MFTRecord_def
           split: option.splits)

lemma two_name_entry_names:
  "map (fn_get fn_namespace) (e_attributes (snd (parse (MFTEntry (two_name_entry ns1 ch1 ns2 ch2) n))))
     = [unat ns1, unat ns2]"
  "map get_filename (e_attributes (snd (parse (MFTEntry (two_name_entry ns1 ch1 ns2 ch2) n))))
     = [[unat ch1], [unat ch2]]"
  "map a_type (e_attributes (snd (parse (MFTEntry (two_name_entry ns1 ch1 ns2 ch2) n))))
     = [FILE_NAME, FILE_NAME]"
  "e_is_valid (snd (parse (MFTEntry (two_name_entry ns1 ch1 ns2 ch2) n)))"
  using parse_file_name_attr [of ns1 ch1] parse_file_name_attr [of ns2 ch2]
  by (auto simp: parse_two_name_entry)

lemma two_name_entry_parents:
  "map (fn_get fn_parent_ref)
     (e_attributes (snd (parse (MFTEntry (two_name_entry ns1 ch1 ns2 ch2) n))))
     = [0x5000000000005, 0x5000000000005]"
  using parse_file_name_attr [of ns1 ch1] parse_file_name_attr [of ns2 ch2]
  by (auto simp: parse_two_name_entry)

text \<open>
  For every parsed entry, \<^verbatim>\<open>to_record\<close> takes the filename and the parent
  reference from the first \<^verbatim>\<open>$FILE_NAME\<close> attribute in the Win32 or
  Win32-and-DOS namespace if there is one, and otherwise from the first
  \<^verbatim>\<open>$FILE_NAME\<close> attribute of the entry, whatever its namespace; with no
  \<^verbatim>\<open>$FILE_NAME\<close> attribute both keep their defaults.
\<close>

lemma to_record_best_name:
  assumes "e_is_valid e"
  shows "\<exists>record. to_record cal e = Some record
          \<and> mr_filename record =
              (case preferred_name (e_attributes e) of None \<Rightarrow> [] | Some attr \<Rightarrow> get_filename attr)
          \<and> mr_parent_ref record =
              (case preferred_name (e_attributes e) of None \<Rightarrow> 0
               | Some attr \<Rightarrow> fn_get fn_parent_ref attr)"
  using assms
  by (simp add: to_record_def Let_def best_filename_loop_preferred MFTRecord_def
           split: option.splits)

text \<open>
  C2. The code departs from the ranking Win32 or Win32-and-DOS, then POSIX, then DOS.
  An entry holds the DOS name \<open>D\<close> followed by the POSIX name \<open>P\<close> and no Win32
  name: the ranking selects \<open>P\<close>, and the record that \<^verbatim>\<open>to_record\<close> builds
  carries \<open>D\<close>.
\<close>

theorem dos_then_posix_selects_dos:
  "map (fn_get fn_namespace) (e_attributes (snd (parse (MFTEntry (two_name_entry 2 0x44 0 0x50) 0))))
     = [DOS, POSIX]
   \<and> map get_filename (e_attributes (snd (parse (MFTEntry (two_name_entry 2 0x44 0 0x50) 0))))
     = [[0x44], [0x50]]
   \<and> map_option get_filename
        (ranked_name (e_attributes (snd (parse (MFTEntry (two_name_entry 2 0x44 0 0x50) 0)))))
     = Some [0x50]
   \<and> map_option mr_filename
        (to_record plain_calendar (snd (parse (MFTEntry (two_name_entry 2 0x44 0 0x50) 0))))
     = Some [0x44]"
proof -
  let ?e = "snd (parse (MFTEntry (two_name_entry 2 0x44 0 0x50) 0))"
  obtain a1 a2 where as: "e_attributes ?e = [a1, a2]"
    using two_name_entry_names(3) [of 2 "0x44" 0 "0x50" 0] by auto
  have ns: "map (fn_get fn_namespace) (e_attributes ?e) = [DOS, POSIX]"
    by (simp add: two_name_entry_names(1) DOS_def POSIX_def)
  have fs: "map get_filename (e_attributes ?e) = [[0x44], [0x50]]"
    by (simp add: two_name_entry_names(2))
  have ts: "map a_type (e_attributes ?e) = [FILE_NAME, FILE_NAME]"
    by (rule two_name_entry_names(3))
  have "preferred_name (e_attributes ?e) = Some a1"
    using ns ts unfolding as
    by (simp add: preferred_name_def is_win32_name_def is_file_name_def
          WIN32_def WIN32_AND_DOS_def DOS_def POSIX_def)
  moreover have "get_filename a1 = [0x44]"
    using fs unfolding as by simp
  ultimately have r: "map_option mr_filename (to_record plain_calendar ?e) = Some [0x44]"
    using to_record_filename [OF two_name_entry_names(4) [of 2 "0x44" 0 "0x50" 0], of plain_calendar]
    by simp
  have "ranked_name (e_attributes ?e) = Some a2"
    using ns ts unfolding as
    by (simp add: ranked_name_def is_win32_name_def is_posix_name_def is_dos_name_def
          WIN32_def WIN32_AND_DOS_def DOS_def POSIX_def)
  moreover have "get_filename a2 = [0x50]"
    using fs unfolding as by simp
  ultimately have k: "map_option get_filename (ranked_name (e_attributes ?e)) = Some [0x50]"
    by simp
  from ns fs k r show ?thesis by blast
qed

subsection \<open>Non-resident sizes\<close>

lemma parse_standard_info_keeps [simp]:
  "a_nonres (parse_standard_info a) = a_nonres a"
  "a_non_resident (parse_standard_info a) = a_non_resident a"
  by (simp_all add: parse_standard_info_def Let_def)

lemma parse_filename_keeps [simp]:
  "a_nonres (parse_filename a) = a_nonres a"
  "a_non_resident (parse_filename a) = a_non_resident a"
  by (simp_all add: parse_filename_def Let_def)

lemma parse_non_resident_attr_flag [simp]:
  "a_non_resident (parse_non_resident_attr a data) = a_non_resident a"
  by (simp add: parse_non_resident_attr_def Let_def)

lemma parse_non_resident_attr_fields:
  "(length data < 48 \<longrightarrow> parse_non_resident_attr attr data = attr)
   \<and> (48 \<le> length data \<longrightarrow>
        (\<exists>info. a_nonres (parse_non_resident_attr attr data) = Some info
           \<and> nr_start_vcn info = from_bytes_little (slice data 16 24)
           \<and> nr_allocated_size info = from_bytes_little (slice data 40 48)
           \<and> (nr_start_vcn info \<noteq> 0 \<or> length data < 64 \<longrightarrow>
                 nr_real_size info = nr_allocated_size info
                 \<and> nr_initialized_size info = nr_allocated_size info)
           \<and> (nr_start_vcn info = 0 \<and> 64 \<le> length data \<longrightarrow>
                 nr_real_size info = from_bytes_little (slice data 48 56)
                 \<and> nr_initialized_size info = from_bytes_little (slice data 56 64))))"
  by (simp add: parse_non_resident_attr_def Let_def)

lemma parse_attribute_non_resident:
  assumes "16 \<le> length data" and "data ! 8 \<noteq> 0"
  shows "\<exists>attr a. a_nonres attr = None \<and> parse_attribute t data = Some a \<and> a_non_resident a
           \<and> a_nonres a = a_nonres (parse_non_resident_attr attr data)"
proof -
  define attr0 where "attr0 =
     \<lparr>a_type = t, a_length = length data, a_non_resident = (data ! 8 \<noteq> 0),
      a_name_length = unat (data ! 9),
      a_name_offset = from_bytes_little (slice data 10 12),
      a_flags = from_bytes_little (slice data 12 14),
      a_id = from_bytes_little (slice data 14 16),
      a_name = None, a_data = None, a_nonres = None, a_std = None, a_fn = None\<rparr>"
  define attr1 where "attr1 =
     (if a_name_length attr0 > 0 then
        let name_start = a_name_offset attr0;
            name_end = name_start + a_name_length attr0 * 2
        in if name_end \<le> length data
           then attr0\<lparr>a_name := Some (decode_or_empty (slice data name_start name_end))\<rparr>
           else attr0
      else attr0\<lparr>a_name := Some []\<rparr>)"
  have n1: "a_nonres attr1 = None" and f1: "a_non_resident attr1"
    using assms(2) by (simp_all add: attr1_def attr0_def Let_def)
  define attr2 where "attr2 = parse_non_resident_attr attr1 data"
  have p: "parse_attribute t data =
        Some (if t = STANDARD_INFORMATION then parse_standard_info attr2
              else if t = FILE_NAME then parse_filename attr2 else attr2)"
    using assms(1) f1
    unfolding parse_attribute_def attr2_def attr1_def attr0_def Let_def
    by (simp only: not_less [symmetric] if_False if_True simp_thms)
  let ?a = "if t = STANDARD_INFORMATION then parse_standard_info attr2
            else if t = FILE_NAME then parse_filename attr2 else attr2"
  have "a_nonres attr1 = None \<and> parse_attribute t data = Some ?a \<and> a_non_resident ?a
          \<and> a_nonres ?a = a_nonres (parse_non_resident_attr attr1 data)"
    using n1 f1 p by (simp add: attr2_def)
  then show ?thesis by blast
qed

lemma short_non_resident_facts:
  "length short_non_resident = 40" "short_non_resident ! 8 \<noteq> 0"
  by (simp_all add: short_non_resident_def nth_append)

lemma non_resident_attr_facts:
  "length (non_resident_attr vcn) = 72"
  "non_resident_attr vcn ! 8 \<noteq> 0"
  "from_bytes_little (slice (non_resident_attr vcn) 16 24) = unat vcn"
  "from_bytes_little (slice (non_resident_attr vcn) 40 48) = 0x3000"
  "from_bytes_little (slice (non_resident_attr vcn) 48 56) = 0x2345"
  "from_bytes_little (slice (non_resident_attr vcn) 56 64) = 0x1234"
  by (simp_all add: non_resident_attr_def slice_def)

text \<open>
  C10 (as amended). A non-resident attribute of at least 48 bytes gets its non-resident
  fields; its real and initialized sizes equal the allocated size when the start VCN is
  nonzero or the attribute is shorter than 64 bytes, and are read from bytes 48..56 and
  56..64 when the start VCN is 0 and at least 64 bytes are present. A non-resident
  attribute shorter than 48 bytes gets none of these fields.
\<close>

theorem non_resident_sizes:
  assumes "16 \<le> length data" and "data ! 8 \<noteq> 0"
  shows "\<exists>a. parse_attribute t data = Some a \<and> a_non_resident a
     \<and> (length data < 48 \<longrightarrow> a_nonres a = None)
     \<and> (48 \<le> length data \<longrightarrow>
          (\<exists>info. a_nonres a = Some info
             \<and> nr_start_vcn info = from_bytes_little (slice data 16 24)
             \<and> nr_allocated_size info = from_bytes_little (slice data 40 48)
             \<and> (nr_start_vcn info \<noteq> 0 \<or> length data < 64 \<longrightarrow>
                   nr_real_size info = nr_allocated_size info
                   \<and> nr_initialized_size info = nr_allocated_size info)
             \<and> (nr_start_vcn info = 0 \<and> 64 \<le> length data \<longrightarrow>
                   nr_real_size info = from_bytes_little (slice data 48 56)
                   \<and> nr_initialized_size info = from_bytes_little (slice data 56 64))))"
proof -
  from parse_attribute_non_resident [OF assms, of t]
  obtain attr a where n: "a_nonres attr = None" and p: "parse_attribute t data = Some a"
    and f: "a_non_resident a"
    and e: "a_nonres a = a_nonres (parse_non_resident_attr attr data)"
    by blast
  have short: "length data < 48 \<longrightarrow> a_nonres a = None"
    using parse_non_resident_attr_fields [of data attr] n e by simp
  have long: "48 \<le> length data \<longrightarrow>
          (\<exists>info. a_nonres a = Some info
             \<and> nr_start_vcn info = from_bytes_little (slice data 16 24)
             \<and> nr_allocated_size info = from_bytes_little (slice data 40 48)
             \<and> (nr_start_vcn info \<noteq> 0 \<or> length data < 64 \<longrightarrow>
                   nr_real_size info = nr_allocated_size info
                   \<and> nr_initialized_size info = nr_allocated_size info)
             \<and> (nr_start_vcn info = 0 \<and> 64 \<le> length data \<longrightarrow>
                   nr_real_size info = from_bytes_little (slice data 48 56)
                   \<and> nr_initialized_size info = from_bytes_little (slice data 56 64)))"
    using parse_non_resident_attr_fields [of data attr] unfolding e by blast
  from p f short long show ?thesis by blast
qed

text \<open>A non-resident attribute of 40 bytes is decoded with no size field at all.\<close>

theorem short_non_resident_left_blank:
  "length short_non_resident = 40
   \<and> map_option a_non_resident (parse_attribute DATA short_non_resident) = Some True
   \<and> map_option a_nonres (parse_attribute DATA short_non_resident) = Some None
   \<and> decoded_sizes (parse_attribute DATA short_non_resident) = None"
proof -
  from parse_attribute_non_resident [of short_non_resident DATA]
  obtain attr a where n: "a_nonres attr = None"
    and p: "parse_attribute DATA short_non_resident = Some a"
    and f: "a_non_resident a"
    and e: "a_nonres a = a_nonres (parse_non_resident_attr attr short_non_resident)"
    using short_non_resident_facts by auto
  have "a_nonres a = None"
    using parse_non_resident_attr_fields [of short_non_resident attr] n e
    by (simp add: short_non_resident_facts)
  with p f show ?thesis
    by (simp add: short_non_resident_facts decoded_sizes_def)
qed

theorem non_resident_sizes_witness:
  "decoded_sizes (parse_attribute DATA (non_resident_attr 0x10)) = Some (0x3000, 0x3000, 0x3000)
   \<and> decoded_sizes (parse_attribute DATA (non_resident_attr 0)) = Some (0x3000, 0x2345, 0x1234)
   \<and> decoded_sizes (parse_attribute DATA short_non_resident) = None"
proof -
  have a: "decoded_sizes (parse_attribute DATA (non_resident_attr 0x10))
             = Some (0x3000, 0x3000, 0x3000)"
    using non_resident_sizes [of "non_resident_attr 0x10" DATA]
    by (auto simp: non_resident_attr_facts decoded_sizes_def)
  have b: "decoded_sizes (parse_attribute DATA (non_resident_attr 0))
             = Some (0x3000, 0x2345, 0x1234)"
    using non_resident_sizes [of "non_resident_attr 0" DATA]
    by (auto simp: non_resident_attr_facts decoded_sizes_def)
  have c: "decoded_sizes (parse_attribute DATA short_non_resident) = None"
    using non_resident_sizes [of short_non_resident DATA]
    by (auto simp: short_non_resident_facts decoded_sizes_def)
  from a b c show ?thesis by blast
qed

subsection \<open>File references and paths\<close>

lemma rooted_simps [simp]:
  "rooted (92 # name)" "\<not> rooted []" "rooted p \<Longrightarrow> rooted (p @ q)"
  by (auto simp: rooted_def split: list.splits)

lemma rooted_cache_upd: "rooted_cache c \<Longrightarrow> rooted p \<Longrightarrow> rooted_cache (c(e \<mapsto> p))"
  by (simp add: rooted_cache_def)

lemma get_path_rooted:
  "rooted_cache path_cache \<Longrightarrow>
     rooted_cache (snd (get_path name_map parent_map entry_num visited path_cache))
     \<and> (fst (get_path name_map parent_map entry_num visited path_cache) = []
        \<or> rooted (fst (get_path name_map parent_map entry_num visited path_cache)))"
proof (induction name_map parent_map entry_num visited path_cache rule: get_path.induct)
  case (1 name_map parent_map entry_num visited path_cache)
  show ?case
  proof (cases "path_cache entry_num")
    case (Some cached)
    with "1.prems" show ?thesis
      by (subst (1 2 3) get_path.simps) (simp add: rooted_cache_def)
  next
    case None
    note nc = None
    show ?thesis
    proof (cases "map_of name_map entry_num")
      case None
      with nc "1.prems" show ?thesis
        by (subst (1 2 3) get_path.simps) simp
    next
      case (Some name)
      define parent where "parent = (case map_of parent_map entry_num of None \<Rightarrow> 0 | Some p \<Rightarrow> p)"
      show ?thesis
      proof (cases "entry_num \<in> visited \<or> entry_num = 5 \<or> parent = 5 \<or> parent = entry_num")
        case True
        with nc Some "1.prems" show ?thesis
          by (subst (1 2 3) get_path.simps)
             (auto simp: Let_def parent_def rooted_cache_upd)
      next
        case False
        then have c: "entry_num \<notin> visited" "entry_num \<noteq> 5" "\<not> (parent = 5 \<or> parent = entry_num)"
          by auto
        obtain pp c' where r: "get_path name_map parent_map parent (insert entry_num visited) path_cache = (pp, c')"
          by (cases "get_path name_map parent_map parent (insert entry_num visited) path_cache")
        from "1.IH" [OF nc Some c(1) parent_def c(2) c(3) "1.prems"] r
        have ih: "rooted_cache c'" "pp = [] \<or> rooted pp"
          by simp_all
        let ?path = "if pp \<noteq> [] then pp @ [92] @ name else 92 # name"
        have g: "get_path name_map parent_map entry_num visited path_cache = (?path, c'(entry_num \<mapsto> ?path))"
          using nc Some c r
          by (subst get_path.simps) (simp add: Let_def parent_def)
        have rp: "rooted ?path"
          using ih(2) by auto
        have "rooted_cache (c'(entry_num \<mapsto> ?path))"
          using ih(1) rp by (rule rooted_cache_upd)
        with rp show ?thesis
          unfolding g fst_conv snd_conv by blast
      qed
    qed
  qed
qed

lemma foldl_get_path_rooted:
  "rooted_cache path_cache \<Longrightarrow>
     rooted_cache (foldl (\<lambda>cache entry_num. snd (get_path name_map parent_map entry_num {} cache))
                    path_cache entries)"
  by (induction entries arbitrary: path_cache) (simp_all add: get_path_rooted)

lemma build_path_cache_rooted:
  "rooted_cache path_cache \<Longrightarrow> rooted_cache (build_path_cache cal f path_cache)"
  by (simp add: build_path_cache_def foldl_get_path_rooted split: prod.splits)

lemma parse_file_reference_entry_bound: "fst (parse_file_reference ref) < 2 ^ 48"
  by (simp add: parse_file_reference_def)

lemma to_record_fields:
  assumes "e_is_valid e"
  shows "\<exists>r. to_record cal e = Some r
          \<and> mr_in_use r = (e_flags e AND 0x0001 \<noteq> 0)
          \<and> mr_filename r =
              (case preferred_name (e_attributes e) of None \<Rightarrow> [] | Some attr \<Rightarrow> get_filename attr)
          \<and> mr_parent_ref r =
              (case preferred_name (e_attributes e) of None \<Rightarrow> 0
               | Some attr \<Rightarrow> fn_get fn_parent_ref attr)"
  using assms
  by (simp add: to_record_def Let_def best_filename_loop_preferred MFTRecord_def
           split: option.splits)

lemma first_pass_one_entry:
  "first_pass plain_calendar (two_name_entry 2 0x44 0 0x50) 0 [] [] = ([(0, 5)], [(0, [0x44])])"
proof -
  let ?f = "two_name_entry 2 0x44 0 0x50"
  define e where "e = snd (parse (MFTEntry ?f 0))"
  have tk: "take 1024 ?f = ?f" and dr: "drop 1024 ?f = []"
    by (simp_all add: length_two_name_entry)
  have pr: "parse (MFTEntry ?f 0) = (True, e)"
    by (simp add: e_def parse_two_name_entry)
  have fl: "e_flags e = 1" and v: "e_is_valid e"
    by (simp_all add: e_def parse_two_name_entry)
  have ts: "map a_type (e_attributes e) = [FILE_NAME, FILE_NAME]"
    unfolding e_def by (rule two_name_entry_names(3))
  then obtain a1 a2 where as: "e_attributes e = [a1, a2]"
    by auto
  have ns: "map (fn_get fn_namespace) (e_attributes e) = [DOS, POSIX]"
    by (simp add: e_def two_name_entry_names(1) DOS_def POSIX_def)
  have pref: "preferred_name (e_attributes e) = Some a1"
    using ns ts unfolding as
    by (simp add: preferred_name_def is_win32_name_def is_file_name_def
          WIN32_def WIN32_AND_DOS_def DOS_def POSIX_def)
  have f1: "get_filename a1 = [0x44]"
    using two_name_entry_names(2) [of 2 "0x44" 0 "0x50" 0] as by (simp add: e_def)
  have p1: "fn_get fn_parent_ref a1 = 0x5000000000005"
    using two_name_entry_parents [of 2 "0x44" 0 "0x50" 0] as by (simp add: e_def)
  from to_record_fields [OF v, of plain_calendar]
  obtain r where r: "to_record plain_calendar e = Some r" "mr_in_use r"
      "mr_filename r = [0x44]" "mr_parent_ref r = 0x5000000000005"
    by (auto simp: pref f1 p1 fl)
  have pf: "fst (parse_file_reference (int (mr_parent_ref r))) = 5"
    by (simp add: r(4) parse_file_reference_def)
  have stop: "first_pass plain_calendar [] 1 [(0, 5)] [(0, [0x44])] = ([(0, 5)], [(0, [0x44])])"
    by (subst first_pass.simps) (simp add: MFT_ENTRY_SIZE_def)
  have "first_pass plain_calendar ?f 0 [] [] = first_pass plain_calendar [] 1 [(0, 5)] [(0, [0x44])]"
    by (subst first_pass.simps)
       (simp add: MFT_ENTRY_SIZE_def tk dr pr r(1,2,3) pf length_two_name_entry)
  with stop show ?thesis by simp
qed

lemma build_path_cache_one_entry:
  "build_path_cache plain_calendar (two_name_entry 2 0x44 0 0x50) Map.empty 0 = Some [92, 0x44]"
proof -
  have "get_path [(0, [0x44])] [(0, 5)] 0 {} Map.empty = ([92, 0x44], [0 \<mapsto> [92, 0x44]])"
    by (subst get_path.simps) simp
  then show ?thesis
    by (simp add: build_path_cache_def first_pass_one_entry)
qed

text \<open>
  C5 (as amended). For every file reference the entry number returned by
  \<^verbatim>\<open>parse_file_reference\<close> is less than \<open>2^48\<close>; and after
  \<^verbatim>\<open>build_path_cache\<close> on a fresh parser every path in the cache begins with a
  backslash (a call on a parser whose cache already has that property keeps it).
\<close>

theorem entry_below_2_48_and_rooted_paths:
  "fst (parse_file_reference ref) < 2 ^ 48
   \<and> (\<forall>entry_num path. build_path_cache cal f Map.empty entry_num = Some path \<longrightarrow> rooted path)
   \<and> (rooted_cache path_cache \<longrightarrow> rooted_cache (build_path_cache cal f path_cache))"
proof -
  have "rooted_cache (build_path_cache cal f Map.empty)"
    by (rule build_path_cache_rooted) (simp add: rooted_cache_def)
  then have "\<forall>entry_num path. build_path_cache cal f Map.empty entry_num = Some path \<longrightarrow> rooted path"
    unfolding rooted_cache_def .
  moreover have "rooted_cache path_cache \<longrightarrow> rooted_cache (build_path_cache cal f path_cache)"
    using build_path_cache_rooted by blast
  moreover note parse_file_reference_entry_bound [of ref]
  ultimately show ?thesis by blast
qed

theorem entry_below_2_48_and_rooted_paths_witness:
  "build_path_cache plain_calendar (two_name_entry 2 0x44 0 0x50) Map.empty 0 = Some [92, 0x44]
   \<and> rooted [92, 0x44]
   \<and> fst (parse_file_reference 0x5000000000005) = 5
   \<and> rooted_cache Map.empty
   \<and> rooted_cache (build_path_cache plain_calendar (two_name_entry 2 0x44 0 0x50) Map.empty)"
proof -
  have e: "rooted_cache Map.empty"
    by (simp add: rooted_cache_def)
  have b: "build_path_cache plain_calendar (two_name_entry 2 0x44 0 0x50) Map.empty 0
             = Some [92, 0x44]"
    by (rule build_path_cache_one_entry)
  have p: "fst (parse_file_reference 0x5000000000005) = 5"
    by (simp add: parse_file_reference_def)
  from entry_below_2_48_and_rooted_paths
         [of "0x5000000000005" plain_calendar "two_name_entry 2 0x44 0 0x50" Map.empty] b e
  have "rooted [92, 0x44]"
    and "rooted_cache (build_path_cache plain_calendar (two_name_entry 2 0x44 0 0x50) Map.empty)"
    by blast+
  with b p e show ?thesis by blast
qed

text \<open>The 64-bit reference \<open>2^40\<close> has entry number \<open>2^40\<close>.\<close>

theorem entry_reaches_2_40:
  "fst (parse_file_reference 0x10000000000) = 0x10000000000
   \<and> \<not> fst (parse_file_reference 0x10000000000) < 2 ^ 40
   \<and> (0x10000000000 :: int) < 2 ^ 64"
  by (simp add: parse_file_reference_def)


subsection \<open>Partition probe\<close>

lemma replicate_2: "replicate 2 x = [x, x]"
  by (simp add: numeral_2_eq_2)

lemma slice_take: "j \<le> n \<Longrightarrow> slice (take n xs) i j = slice xs i j"
  by (simp add: slice_def drop_take min_def)

lemma byte_at_take: "i < n \<Longrightarrow> byte_at (take n xs) i = byte_at xs i"
  by (simp add: byte_at_def)

lemma seek_0: "seek img 0 = Inr 0"
  by (simp add: seek_def)

lemma parse_boot_sector_prefix:
  "parse_boot_sector img (NTFSPartition 0) =
     parse_boot_sector \<lparr>im_data = take 65 (im_data img), im_seek_max = 0\<rparr> (NTFSPartition 0)"
  by (simp add: parse_boot_sector_def image_read_def seek_0 NTFSPartition_def slice_take
        byte_at_take cong: sum.case_cong if_cong)

lemma find_no_mbr:
  assumes "slice (take 512 (im_data img)) 510 512 \<noteq> [0x55, 0xAA]"
  shows "find_ntfs_partitions img = probe img 0 []"
  using assms by (simp add: find_ntfs_partitions_def image_read_def seek_0)

lemma probe_prefix:
  "probe img 0 [] = probe \<lparr>im_data = take 65 (im_data img), im_seek_max = 0\<rparr> 0 []"
  unfolding probe_def by (subst parse_boot_sector_prefix) (rule refl)

lemma parse_boot_sector_no_magic:
  assumes "slice (take 512 (im_data img)) 3 11 \<noteq> NTFS_MAGIC"
  shows "parse_boot_sector img (NTFSPartition 0) = Inr (False, NTFSPartition 0)"
  using assms by (simp add: parse_boot_sector_def image_read_def seek_0 NTFSPartition_def)

lemma parse_boot_sector_magic:
  assumes "slice (take 512 (im_data img)) 3 11 = NTFS_MAGIC" and "65 \<le> length (im_data img)"
  shows "\<exists>part. parse_boot_sector img (NTFSPartition 0) = Inr (True, part) \<and> p_offset part = 0
           \<and> p_cluster_size part = p_bytes_per_sector part * p_sectors_per_cluster part"
proof -
  have l: "length (slice (take 512 (im_data img)) 0x0B 0x0D) = 2"
     "length (slice (take 512 (im_data img)) 0x30 0x38) = 8"
     "length (slice (take 512 (im_data img)) 0x40 0x41) = 1"
     "0x0D < length (take 512 (im_data img))"
    using assms(2) by (simp_all add: slice_def)
  obtain b where b: "slice (take 512 (im_data img)) 0x40 0x41 = [b]"
    using l(3) by (cases "slice (take 512 (im_data img)) 0x40 0x41") auto
  show ?thesis
    using assms(1) l(1,2,4)
    by (simp add: parse_boot_sector_def image_read_def seek_0 NTFSPartition_def unpack_def
          byte_at_def unpack_signed_byte_def b Let_def)
qed

lemma boot_image_facts:
  "length boot_image = 512"
  "slice (take 512 boot_image) 510 512 = [0x00, 0x00]"
  "slice (take 512 boot_image) 3 11 = NTFS_MAGIC"
  by (simp_all add: boot_image_def slice_def NTFS_MAGIC_def replicate_2)

lemma parse_boot_image:
  "parse_boot_sector (on_disk boot_image) (NTFSPartition 0) =
     Inr (True, \<lparr>p_offset = 0, p_bytes_per_sector = 512, p_sectors_per_cluster = 8,
                 p_cluster_size = 4096, p_mft_offset = 16384, p_mft_entry_size = 1024\<rparr>)"
  by (simp add: parse_boot_sector_def image_read_def seek_0 on_disk_def NTFSPartition_def
        boot_image_def slice_def NTFS_MAGIC_def unpack_def byte_at_def unpack_signed_byte_def
        nth_append)

lemma other_tail_facts:
  "slice (take 512 boot_image_other_tail) 510 512 = [0x07, 0x07]"
  "take 65 boot_image_other_tail = take 65 boot_image"
  by (simp_all add: boot_image_other_tail_def boot_image_def slice_def replicate_2)

text \<open>
  C9. If the first sector of the image does not end with \<^verbatim>\<open>55 AA\<close>,
  \<^verbatim>\<open>find_ntfs_partitions\<close> probes byte offset 0 only: it returns the empty list
  when bytes 3..11 differ from \<^verbatim>\<open>'NTFS    '\<close>, and for an image that holds its
  boot sector (at least the 65 bytes up to offset \<open>0x40\<close>) a one-element list with the
  partition at offset 0 when they are equal. Nothing beyond these 65 bytes is examined:
  another image without the mark that agrees on them gives the same result, whatever
  stands in the MBR entries and in the GPT header.
\<close>

theorem no_mbr_probes_offset_0:
  assumes "slice (take 512 (im_data img)) 510 512 \<noteq> [0x55, 0xAA]"
  shows "(slice (take 512 (im_data img)) 3 11 \<noteq> NTFS_MAGIC \<longrightarrow> find_ntfs_partitions img = Inr [])
    \<and> (slice (take 512 (im_data img)) 3 11 = NTFS_MAGIC \<and> 65 \<le> length (im_data img) \<longrightarrow>
         (\<exists>part. find_ntfs_partitions img = Inr [part] \<and> p_offset part = 0
            \<and> parse_boot_sector img (NTFSPartition 0) = Inr (True, part)))
    \<and> (\<forall>img'. slice (take 512 (im_data img')) 510 512 \<noteq> [0x55, 0xAA]
               \<and> take 65 (im_data img') = take 65 (im_data img) \<longrightarrow>
         find_ntfs_partitions img' = find_ntfs_partitions img)"
proof (intro conjI impI allI)
  assume "slice (take 512 (im_data img)) 3 11 \<noteq> NTFS_MAGIC"
  then show "find_ntfs_partitions img = Inr []"
    by (simp add: find_no_mbr [OF assms] probe_def parse_boot_sector_no_magic)
next
  assume "slice (take 512 (im_data img)) 3 11 = NTFS_MAGIC \<and> 65 \<le> length (im_data img)"
  then obtain part where "parse_boot_sector img (NTFSPartition 0) = Inr (True, part)"
      and "p_offset part = 0"
    using parse_boot_sector_magic [of img] by blast
  then show "\<exists>part. find_ntfs_partitions img = Inr [part] \<and> p_offset part = 0
            \<and> parse_boot_sector img (NTFSPartition 0) = Inr (True, part)"
    by (simp add: find_no_mbr [OF assms] probe_def)
next
  fix img' :: image_file
  assume a: "slice (take 512 (im_data img')) 510 512 \<noteq> [0x55, 0xAA]
               \<and> take 65 (im_data img') = take 65 (im_data img)"
  then have "find_ntfs_partitions img'
               = probe \<lparr>im_data = take 65 (im_data img'), im_seek_max = 0\<rparr> 0 []"
    using find_no_mbr [of img'] probe_prefix [of img'] by simp
  also have "\<dots> = probe \<lparr>im_data = take 65 (im_data img), im_seek_max = 0\<rparr> 0 []"
    using a by simp
  also have "\<dots> = find_ntfs_partitions img"
    using find_no_mbr [OF assms] probe_prefix [of img] by simp
  finally show "find_ntfs_partitions img' = find_ntfs_partitions img" .
qed

theorem no_mbr_probes_offset_0_witness:
  "slice (take 512 boot_image) 510 512 = [0x00, 0x00]
   \<and> find_ntfs_partitions (on_disk boot_image) =
       Inr [\<lparr>p_offset = 0, p_bytes_per_sector = 512, p_sectors_per_cluster = 8,
              p_cluster_size = 4096, p_mft_offset = 16384, p_mft_entry_size = 1024\<rparr>]
   \<and> find_ntfs_partitions (on_disk (replicate 512 0)) = Inr []
   \<and> find_ntfs_partitions (on_disk boot_image_other_tail) = find_ntfs_partitions (on_disk boot_image)"
proof -
  have d: "\<And>bs. im_data (on_disk bs) = bs"
    by (simp add: on_disk_def)
  have n: "slice (take 512 (im_data (on_disk boot_image))) 510 512 \<noteq> [0x55, 0xAA]"
    unfolding d boot_image_facts(2) by simp
  have z: "slice (take 512 (im_data (on_disk (replicate 512 (0 :: byte))))) 510 512 \<noteq> [0x55, 0xAA]"
      "slice (take 512 (im_data (on_disk (replicate 512 (0 :: byte))))) 3 11 \<noteq> NTFS_MAGIC"
    unfolding d by (auto simp: slice_def NTFS_MAGIC_def dest: arg_cong [where f = hd])
  have m: "slice (take 512 (im_data (on_disk boot_image))) 3 11 = NTFS_MAGIC
             \<and> 65 \<le> length (im_data (on_disk boot_image))"
    unfolding d using boot_image_facts by simp
  from no_mbr_probes_offset_0 [OF n] m
  obtain part where "find_ntfs_partitions (on_disk boot_image) = Inr [part]"
      and "parse_boot_sector (on_disk boot_image) (NTFSPartition 0) = Inr (True, part)"
    by blast
  then have a: "find_ntfs_partitions (on_disk boot_image) =
       Inr [\<lparr>p_offset = 0, p_bytes_per_sector = 512, p_sectors_per_cluster = 8,
              p_cluster_size = 4096, p_mft_offset = 16384, p_mft_entry_size = 1024\<rparr>]"
    by (simp add: parse_boot_image)
  have o: "slice (take 512 (im_data (on_disk boot_image_other_tail))) 510 512 \<noteq> [0x55, 0xAA]
             \<and> take 65 (im_data (on_disk boot_image_other_tail))
                 = take 65 (im_data (on_disk boot_image))"
    unfolding d using other_tail_facts by simp
  from no_mbr_probes_offset_0 [OF n] o
  have c: "find_ntfs_partitions (on_disk boot_image_other_tail)
             = find_ntfs_partitions (on_disk boot_image)"
    by blast
  from no_mbr_probes_offset_0 [OF z(1)] z(2)
  have b: "find_ntfs_partitions (on_disk (replicate 512 0)) = Inr []"
    by blast
  from a b c boot_image_facts(2) show ?thesis by blast
qed

subsection \<open>Extraction from data runs\<close>

lemma take_take_append: "take k a @ take (k - length (take k a)) b = take k (a @ b)"
  by (cases "k \<le> length a") (simp_all add: min_def)

lemma zero_fill_Suc:
  assumes "0 < r"
  shows "zero_fill cs r (Suc n) (out, w) =
           (if r \<le> w then (out, w)
            else if r < cs + w then zero_fill cs r n (out @ replicate (r - w) 0, r)
            else zero_fill cs r n (out @ replicate cs 0, w + cs))"
proof -
  have a: "(int r - int w \<le> 0) = (r \<le> w)"
    by linarith
  have b: "(int r - int w < int cs) = (r < cs + w)"
    by linarith
  have c: "nat (int r - int w) = r - w"
    by linarith
  have e: "\<not> r \<le> w \<Longrightarrow> w + (r - w) = r" "r < cs + w \<Longrightarrow> min (r - w) cs = r - w"
    by linarith+
  show ?thesis
    using assms e
    by (simp only: zero_fill.simps Let_def a b c length_replicate take_replicate
          if_True split: if_splits) simp
qed

lemma zero_fill_eq:
  assumes "0 < r"
  shows "zero_fill cs r n (out, length out) =
           (out @ take (r - length out) (replicate (n * cs) 0),
            length (out @ take (r - length out) (replicate (n * cs) 0)))"
proof (induction n arbitrary: out)
  case 0
  show ?case by simp
next
  case (Suc n)
  consider "r \<le> length out" | "length out < r" "r < cs + length out"
    | "length out < r" "cs + length out \<le> r"
    by linarith
  then show ?case
  proof cases
    case 1
    then show ?thesis
      by (simp add: zero_fill_Suc [OF assms] del: zero_fill.simps)
  next
    case 2
    let ?out = "out @ replicate (r - length out) (0 :: byte)"
    have l: "length ?out = r"
      using 2 by simp
    have "zero_fill cs r (Suc n) (out, length out) = zero_fill cs r n (?out, length ?out)"
      using 2 by (simp add: zero_fill_Suc [OF assms] del: zero_fill.simps)
    also have "\<dots> = (?out, r)"
      unfolding Suc.IH [of ?out] using 2 by simp
    finally have z: "zero_fill cs r (Suc n) (out, length out) = (?out, r)" .
    have "r - length out \<le> Suc n * cs"
      using 2 by simp
    then have eq: "out @ take (r - length out) (replicate (Suc n * cs) 0) = ?out"
      by (simp add: min_def)
    show ?thesis
      unfolding eq z using l by simp
  next
    case 3
    let ?out = "out @ replicate cs (0 :: byte)"
    have "zero_fill cs r (Suc n) (out, length out) = zero_fill cs r n (?out, length ?out)"
      using 3 by (simp add: zero_fill_Suc [OF assms] del: zero_fill.simps)
    also have "\<dots> = (?out @ take (r - length ?out) (replicate (n * cs) 0),
            length (?out @ take (r - length ?out) (replicate (n * cs) 0)))"
      by (rule Suc.IH)
    also have "?out @ take (r - length ?out) (replicate (n * cs) 0)
                 = out @ take (r - length out) (replicate (Suc n * cs) 0)"
    proof -
      have "replicate (Suc n * cs) (0 :: byte) = replicate cs 0 @ replicate (n * cs) 0"
        by (simp add: replicate_add)
      then show ?thesis
        using 3 by (simp del: replicate_add take_replicate)
    qed
    finally show ?thesis .
  qed
qed

lemma read_cluster_inside:
  assumes "0 \<le> p_offset p + c * int (p_cluster_size p)"
    and "p_offset p + c * int (p_cluster_size p) + int (p_cluster_size p) \<le> int (length (im_data img))"
    and "p_offset p + c * int (p_cluster_size p) + int (p_cluster_size p) \<le> int (im_seek_max img)"
    and "p_offset p + c * int (p_cluster_size p) + int (p_cluster_size p) < 2 ^ 63"
  shows "read_cluster img p c = Inr (cluster_bytes img p c)"
    and "length (cluster_bytes img p c) = p_cluster_size p"
proof -
  let ?off = "p_offset p + c * int (p_cluster_size p)"
  have "?off < 2 ^ 63" "\<not> ?off < - (2 ^ 63)" "\<not> int (im_seek_max img) < ?off"
    using assms by linarith+
  then show "read_cluster img p c = Inr (cluster_bytes img p c)"
    using assms(1) by (simp add: read_cluster_def image_read_def seek_def cluster_bytes_def)
  have "nat ?off + p_cluster_size p \<le> length (im_data img)"
    using assms(1,2) by linarith
  then show "length (cluster_bytes img p c) = p_cluster_size p"
    by (simp add: cluster_bytes_def)
qed

lemma run_cluster_inside:
  assumes "inside_image img p run" and "i < run_length run"
  shows "read_cluster img p (start_cluster run + int i)
           = Inr (cluster_bytes img p (start_cluster run + int i))"
    and "length (cluster_bytes img p (start_cluster run + int i)) = p_cluster_size p"
proof -
  let ?cs = "int (p_cluster_size p)"
  let ?s = "start_cluster run"
  have e: "p_offset p + (?s + int i) * ?cs + ?cs = p_offset p + (?s + int i + 1) * ?cs"
    by (simp add: distrib_right)
  have "?s + int i + 1 \<le> ?s + int (run_length run)"
    using assms(2) by simp
  then have up: "(?s + int i + 1) * ?cs \<le> (?s + int (run_length run)) * ?cs"
    by (rule mult_right_mono) simp
  have "?s \<le> ?s + int i"
    by simp
  then have lo: "?s * ?cs \<le> (?s + int i) * ?cs"
    by (rule mult_right_mono) simp
  have ins: "0 \<le> p_offset p + ?s * ?cs"
      "p_offset p + (?s + int (run_length run)) * ?cs \<le> int (length (im_data img))"
      "p_offset p + (?s + int (run_length run)) * ?cs \<le> int (im_seek_max img)"
      "p_offset p + (?s + int (run_length run)) * ?cs < 2 ^ 63"
    using assms(1) by (simp_all add: inside_image_def)
  have a: "0 \<le> p_offset p + (?s + int i) * ?cs"
    using ins(1) lo by linarith
  have b: "p_offset p + (?s + int i) * ?cs + ?cs \<le> int (length (im_data img))"
       "p_offset p + (?s + int i) * ?cs + ?cs \<le> int (im_seek_max img)"
       "p_offset p + (?s + int i) * ?cs + ?cs < 2 ^ 63"
    unfolding e using ins(2,3,4) up by linarith+
  show "read_cluster img p (?s + int i) = Inr (cluster_bytes img p (?s + int i))"
    by (rule read_cluster_inside(1) [OF a b])
  show "length (cluster_bytes img p (?s + int i)) = p_cluster_size p"
    by (rule read_cluster_inside(2) [OF a b])
qed

lemma copy_clusters_eq:
  assumes "0 < r"
  shows "(\<forall>i\<in>set ixs. read_cluster img p (cluster + int i)
                          = Inr (cluster_bytes img p (cluster + int i))) \<Longrightarrow>
     copy_clusters img p r cluster ixs (out, length out) =
       Inr (out @ take (r - length out)
                    (concat (map (\<lambda>i. cluster_bytes img p (cluster + int i)) ixs)),
            length (out @ take (r - length out)
                    (concat (map (\<lambda>i. cluster_bytes img p (cluster + int i)) ixs))))"
proof (induction ixs arbitrary: out)
  case Nil
  show ?case by simp
next
  case (Cons i ixs)
  let ?cd = "cluster_bytes img p (cluster + int i)"
  let ?rest = "concat (map (\<lambda>i. cluster_bytes img p (cluster + int i)) ixs)"
  have rd: "read_cluster img p (cluster + int i) = Inr ?cd"
    using Cons.prems by simp
  have ih: "\<And>out. copy_clusters img p r cluster ixs (out, length out) =
       Inr (out @ take (r - length out) ?rest, length (out @ take (r - length out) ?rest))"
    using Cons.prems by (intro Cons.IH) simp
  consider "r \<le> length out" | "length out < r" "r - length out < length ?cd"
    | "length out < r" "length ?cd \<le> r - length out"
    by linarith
  then show ?case
  proof cases
    case 1
    with assms show ?thesis by simp
  next
    case 2
    let ?out = "out @ take (r - length out) ?cd"
    have l: "length ?out = r"
      using 2 by simp
    have "copy_clusters img p r cluster (i # ixs) (out, length out)
            = copy_clusters img p r cluster ixs (?out, length ?out)"
      using assms 2 rd by (simp add: Let_def)
    also have "\<dots> = Inr (?out, r)"
      unfolding ih [of ?out] using 2 by simp
    finally show ?thesis
      using 2 l by simp
  next
    case 3
    let ?out = "out @ ?cd"
    have "copy_clusters img p r cluster (i # ixs) (out, length out)
            = copy_clusters img p r cluster ixs (?out, length ?out)"
      using assms 3 rd by (simp add: Let_def)
    also have "\<dots> = Inr (?out @ take (r - length ?out) ?rest,
                            length (?out @ take (r - length ?out) ?rest))"
      by (rule ih)
    finally show ?thesis
      using 3 by (simp add: diff_diff_left add.commute)
  qed
qed

lemma extract_runs_eq:
  assumes "0 < r"
  shows "(\<forall>run\<in>set runs. zero_filled run \<or> inside_image img p run) \<Longrightarrow>
     extract_runs img p r False runs (out, length out) =
       Inr (out @ take (r - length out) (concat (map (run_bytes img p) runs)),
            length (out @ take (r - length out) (concat (map (run_bytes img p) runs))))"
proof (induction runs arbitrary: out)
  case Nil
  show ?case by simp
next
  case (Cons run runs)
  let ?rb = "run_bytes img p run"
  let ?rest = "concat (map (run_bytes img p) runs)"
  let ?out = "out @ take (r - length out) ?rb"
  have ih: "extract_runs img p r False runs (?out, length ?out) =
       Inr (?out @ take (r - length ?out) ?rest, length (?out @ take (r - length ?out) ?rest))"
    using Cons.prems by (intro Cons.IH) simp
  have join: "?out @ take (r - length ?out) ?rest = out @ take (r - length out) (?rb @ ?rest)"
    using take_take_append [of "r - length out" ?rb ?rest]
    by (simp add: diff_diff_left)
  show ?case
  proof (cases "r \<le> length out")
    case True
    with assms show ?thesis by simp
  next
    case False
    show ?thesis
    proof (cases "zero_filled run")
      case True
      have "extract_runs img p r False (run # runs) (out, length out)
              = extract_runs img p r False runs
                  (zero_fill (p_cluster_size p) r (run_length run) (out, length out))"
        using assms False True by (simp add: zero_filled_def Let_def)
      also have "zero_fill (p_cluster_size p) r (run_length run) (out, length out)
                   = (?out, length ?out)"
        using True by (simp only: zero_fill_eq [OF assms] run_bytes_def if_True)
      finally show ?thesis
        unfolding ih join by simp
    next
      case nz: False
      then have ins: "inside_image img p run"
        using Cons.prems by simp
      have ri: "\<forall>i\<in>set [0..<run_length run].
                  read_cluster img p (start_cluster run + int i)
                    = Inr (cluster_bytes img p (start_cluster run + int i))"
        using run_cluster_inside(1) [OF ins] by simp
      have rb: "?rb = concat (map (\<lambda>i. cluster_bytes img p (start_cluster run + int i))
                              [0..<run_length run])"
        using nz by (simp add: run_bytes_def)
      have cc: "copy_clusters img p r (start_cluster run) [0..<run_length run] (out, length out)
                   = Inr (?out, length ?out)"
        unfolding rb by (rule copy_clusters_eq [OF assms ri])
      have "extract_runs img p r False (run # runs) (out, length out)
              = extract_runs img p r False runs (?out, length ?out)"
        using assms False nz unfolding extract_runs.simps cc
        by (simp add: zero_filled_def)
      then show ?thesis
        unfolding ih join by simp
    qed
  qed
qed

lemma run_bytes_length:
  assumes "zero_filled run \<or> inside_image img p run"
  shows "length (run_bytes img p run) = run_length run * p_cluster_size p"
proof (cases "zero_filled run")
  case True
  then show ?thesis by (simp add: run_bytes_def)
next
  case False
  then have ins: "inside_image img p run"
    using assms by simp
  have m: "map (\<lambda>i. length (cluster_bytes img p (start_cluster run + int i))) [0..<run_length run]
          = map (\<lambda>i. p_cluster_size p) [0..<run_length run]"
    by (rule map_cong [OF refl]) (simp add: run_cluster_inside(2) [OF ins])
  have "length (concat (map (\<lambda>i. cluster_bytes img p (start_cluster run + int i))
                               [0..<run_length run]))
          = sum_list (map (\<lambda>i. length (cluster_bytes img p (start_cluster run + int i)))
                        [0..<run_length run])"
    by (simp add: length_concat comp_def)
  also have "\<dots> = sum_list (map (\<lambda>i. p_cluster_size p) [0..<run_length run])"
    by (simp only: m)
  also have "\<dots> = run_length run * p_cluster_size p"
    by (simp add: sum_list_triv)
  finally show ?thesis
    using False by (simp add: run_bytes_def)
qed

lemma runs_bytes_length:
  "(\<forall>run\<in>set runs. zero_filled run \<or> inside_image img p run) \<Longrightarrow>
     length (concat (map (run_bytes img p) runs))
       = sum_list (map run_length runs) * p_cluster_size p"
  by (induction runs) (simp_all add: run_bytes_length distrib_right)

lemma two_cluster_facts:
  "cluster_bytes two_cluster_image small_partition 0 = replicate 512 0xEB"
  "cluster_bytes two_cluster_image small_partition 1 = replicate 512 0x4A"
  "cluster_bytes two_cluster_image small_partition 2 = []"
  by (simp_all add: cluster_bytes_def two_cluster_image_def on_disk_def small_partition_def)

lemma two_cluster_reads:
  "read_cluster two_cluster_image small_partition 0 = Inr (replicate 512 0xEB)"
  "read_cluster two_cluster_image small_partition 1 = Inr (replicate 512 0x4A)"
  "read_cluster two_cluster_image small_partition 2 = Inr []"
  "read_cluster two_cluster_image small_partition (2 ^ 54) = Inl ValueError"
  by (simp_all add: read_cluster_def image_read_def seek_def two_cluster_image_def on_disk_def
        small_partition_def)

text \<open>
  C4 (as amended). Extracting the \<^verbatim>\<open>$J\<close> stream
  (\<^verbatim>\<open>skip_sparse = False\<close>) from a run list with \<open>real_size r > 0\<close>, every run
  of which is flagged sparse, starts at cluster 0 or lies inside the image, writes the
  first \<open>r\<close> bytes of the concatenation of the runs' contributions, in order: zero
  bytes for every run that is flagged sparse or starts at cluster 0, and the contents
  of the referenced clusters for every other run. Each run contributes its length
  times the cluster size bytes, so every run's bytes stand at their offset in the
  file, and the output has \<open>r\<close> bytes when the runs hold at least \<open>r\<close> bytes and all
  the bytes of the runs otherwise.
\<close>

theorem j_stream_zero_fills_and_truncates:
  assumes "0 < r" and "\<forall>run\<in>set runs. zero_filled run \<or> inside_image img p run"
  shows "extract_from_data_runs img p runs r False
           = Inr (take r (concat (map (run_bytes img p) runs)))
       \<and> (\<forall>run\<in>set runs. length (run_bytes img p run) = run_length run * p_cluster_size p)
       \<and> length (take r (concat (map (run_bytes img p) runs)))
           = min r (sum_list (map run_length runs) * p_cluster_size p)"
proof (intro conjI ballI)
  show "extract_from_data_runs img p runs r False
           = Inr (take r (concat (map (run_bytes img p) runs)))"
    using extract_runs_eq [OF assms(1), of runs img p "[]"] assms(2)
    by (simp add: extract_from_data_runs_def)
next
  fix run
  assume "run \<in> set runs"
  then show "length (run_bytes img p run) = run_length run * p_cluster_size p"
    using assms(2) by (intro run_bytes_length) simp
next
  show "length (take r (concat (map (run_bytes img p) runs)))
           = min r (sum_list (map run_length runs) * p_cluster_size p)"
    using runs_bytes_length [OF assms(2)] by (simp add: min.commute)
qed

theorem j_stream_zero_fills_and_truncates_witness:
  "extract_from_data_runs two_cluster_image small_partition
     [\<lparr>start_cluster = 0, run_length = 1, sparse = True\<rparr>,
      \<lparr>start_cluster = 1, run_length = 1, sparse = False\<rparr>] 600 False
     = Inr (replicate 512 0 @ replicate 88 0x4A)
   \<and> inside_image two_cluster_image small_partition
       \<lparr>start_cluster = 1, run_length = 1, sparse = False\<rparr>
   \<and> read_cluster two_cluster_image small_partition 1 = Inr (replicate 512 0x4A)"
proof -
  let ?s = "\<lparr>start_cluster = 0, run_length = 1, sparse = True\<rparr>"
  let ?d = "\<lparr>start_cluster = 1, run_length = 1, sparse = False\<rparr>"
  have ins: "inside_image two_cluster_image small_partition ?d"
    by (simp add: inside_image_def two_cluster_image_def on_disk_def small_partition_def)
  have rd: "\<forall>run\<in>set [?s, ?d]. zero_filled run \<or> inside_image two_cluster_image small_partition run"
    using ins by (simp add: zero_filled_def)
  have rs: "run_bytes two_cluster_image small_partition ?s = replicate 512 0"
    by (simp add: run_bytes_def zero_filled_def small_partition_def)
  have rn: "run_bytes two_cluster_image small_partition ?d = replicate 512 0x4A"
    by (simp add: run_bytes_def zero_filled_def two_cluster_facts)
  have "extract_from_data_runs two_cluster_image small_partition [?s, ?d] 600 False
          = Inr (take 600 (concat (map (run_bytes two_cluster_image small_partition) [?s, ?d])))"
    using j_stream_zero_fills_and_truncates [OF _ rd, of 600] by simp
  then have a: "extract_from_data_runs two_cluster_image small_partition [?s, ?d] 600 False
          = Inr (replicate 512 0 @ replicate 88 0x4A)"
    unfolding list.map concat.simps rs rn by simp
  from a ins two_cluster_reads(2) show ?thesis by blast
qed

lemma extract_cluster_0_run:
  "extract_from_data_runs two_cluster_image small_partition
         [\<lparr>start_cluster = 0, run_length = 1, sparse = False\<rparr>] 512 False
       = Inr (replicate 512 0)"
proof -
  let ?run = "\<lparr>start_cluster = 0, run_length = 1, sparse = False\<rparr>"
  have rb: "run_bytes two_cluster_image small_partition ?run = replicate 512 0"
    by (simp add: run_bytes_def zero_filled_def small_partition_def)
  have rd: "\<forall>run\<in>set [?run]. zero_filled run \<or> inside_image two_cluster_image small_partition run"
    by (simp add: zero_filled_def)
  have "extract_runs two_cluster_image small_partition 512 False [?run] ([], length ([] :: bytes))
          = Inr ([] @ take (512 - length ([] :: bytes))
                        (concat (map (run_bytes two_cluster_image small_partition) [?run])),
                 length ([] @ take (512 - length ([] :: bytes))
                        (concat (map (run_bytes two_cluster_image small_partition) [?run]))))"
    by (rule extract_runs_eq [OF _ rd]) simp
  then show ?thesis
    unfolding list.map concat.simps rb extract_from_data_runs_def by simp
qed

lemma extract_short_runs:
  "extract_from_data_runs two_cluster_image small_partition
         [\<lparr>start_cluster = 0, run_length = 1, sparse = True\<rparr>] 600 False
       = Inr (replicate 512 0)"
proof -
  let ?run = "\<lparr>start_cluster = 0, run_length = 1, sparse = True\<rparr>"
  have rb: "run_bytes two_cluster_image small_partition ?run = replicate 512 0"
    by (simp add: run_bytes_def zero_filled_def small_partition_def)
  have rd: "\<forall>run\<in>set [?run]. zero_filled run \<or> inside_image two_cluster_image small_partition run"
    by (simp add: zero_filled_def)
  have "extract_runs two_cluster_image small_partition 600 False [?run] ([], length ([] :: bytes))
          = Inr ([] @ take (600 - length ([] :: bytes))
                        (concat (map (run_bytes two_cluster_image small_partition) [?run])),
                 length ([] @ take (600 - length ([] :: bytes))
                        (concat (map (run_bytes two_cluster_image small_partition) [?run]))))"
    by (rule extract_runs_eq [OF _ rd]) simp
  then show ?thesis
    unfolding list.map concat.simps rb extract_from_data_runs_def by simp
qed

lemma upt_2: "[0..<2] = [0, 1]"
  by (simp add: numeral_2_eq_2)

lemma extract_past_end:
  "extract_from_data_runs two_cluster_image small_partition
         [\<lparr>start_cluster = 1, run_length = 2, sparse = False\<rparr>,
          \<lparr>start_cluster = 0, run_length = 1, sparse = True\<rparr>] 2048 False
       = Inr (replicate 512 0x4A @ replicate 512 0)"
proof -
  have z: "zero_fill 512 2048 1 (replicate 512 (0x4A :: byte), length (replicate 512 (0x4A :: byte)))
             = (replicate 512 0x4A @ replicate 512 0, 1024)"
    unfolding zero_fill_eq [of 2048, simplified] by simp
  have c: "copy_clusters two_cluster_image small_partition 2048 1 [0, 1] ([], 0)
             = Inr (replicate 512 0x4A, 512)"
    using two_cluster_reads(2,3) by (simp add: Let_def)
  show ?thesis
    using z c
    by (simp add: extract_from_data_runs_def upt_2 small_partition_def Let_def)
qed

lemma extract_unseekable:
  "extract_from_data_runs two_cluster_image small_partition
         [\<lparr>start_cluster = 2 ^ 54, run_length = 1, sparse = False\<rparr>] 512 False
       = Inl ValueError"
  using two_cluster_reads(4)
  by (simp add: extract_from_data_runs_def)

text \<open>
  Four extractions from the image of two clusters. The run decoded from
  \<^verbatim>\<open>11 01 00\<close> is not sparse and references cluster 0, whose content is not
  zero: zero bytes are written for it. A run list that holds 512 bytes with
  \<open>real_size\<close> 600 gives 512 bytes. A run of two clusters whose second cluster lies
  past the end of the image contributes one cluster only, and the zero bytes of the
  sparse run after it start at offset 512 of the output instead of 1024. A run at
  cluster \<open>2^54\<close>, byte offset \<open>2^63\<close>, raises.
\<close>

theorem j_stream_departures:
  "parse_data_runs [0x11, 0x01, 0x00] = [\<lparr>start_cluster = 0, run_length = 1, sparse = False\<rparr>]
   \<and> read_cluster two_cluster_image small_partition 0 = Inr (replicate 512 0xEB)
   \<and> extract_from_data_runs two_cluster_image small_partition
         [\<lparr>start_cluster = 0, run_length = 1, sparse = False\<rparr>] 512 False
       = Inr (replicate 512 0)
   \<and> extract_from_data_runs two_cluster_image small_partition
         [\<lparr>start_cluster = 0, run_length = 1, sparse = True\<rparr>] 600 False
       = Inr (replicate 512 0)
   \<and> extract_from_data_runs two_cluster_image small_partition
         [\<lparr>start_cluster = 1, run_length = 2, sparse = False\<rparr>,
          \<lparr>start_cluster = 0, run_length = 1, sparse = True\<rparr>] 2048 False
       = Inr (replicate 512 0x4A @ replicate 512 0)
   \<and> extract_from_data_runs two_cluster_image small_partition
         [\<lparr>start_cluster = 2 ^ 54, run_length = 1, sparse = False\<rparr>] 512 False
       = Inl ValueError"
proof -
  have a: "parse_data_runs [0x11, 0x01, 0x00]
             = [\<lparr>start_cluster = 0, run_length = 1, sparse = False\<rparr>]"
    by (simp add: parse_data_runs_def parse_data_runs_loop.simps data_run_at_def slice_def Let_def)
  from a two_cluster_reads(1) extract_cluster_0_run extract_short_runs extract_past_end
    extract_unseekable
  show ?thesis by blast
qed

subsection \<open>The fallback scan of the log file\<close>

lemma and_low_48: "(n :: nat) AND 0x0000FFFFFFFFFFFF = n mod 2 ^ 48"
proof -
  have "(0x0000FFFFFFFFFFFF :: nat) = mask 48"
    by (simp add: mask_eq_exp_minus_1)
  then show ?thesis
    by (simp only: flip: take_bit_eq_mask) (simp add: take_bit_eq_mod)
qed

lemma scan_at_accepts:
  "(scan_at isprintable cal data offset record \<noteq> None)
     = accepted_candidate isprintable data offset"
  by (auto simp: scan_at_def accepted_candidate_def candidate_name_def Let_def and_low_48
        list_all_iff mult.commute Suc_le_eq)

lemma scan_at_fields:
  assumes "scan_at isprintable cal data offset record = Some found"
  shows "lr_filename found = candidate_name data offset"
    and "lr_parent_reference found = from_bytes_little (slice data offset (offset + 8))"
    and "lr_file_attr found = from_bytes_little (slice data (offset + 0x38) (offset + 0x3C))"
  using assms
  by (auto simp: scan_at_def candidate_name_def Let_def mult.commute
           split: if_splits option.splits)

lemma scan_loop_find:
  "scan_loop isprintable cal data offsets record =
     (case find (accepted_candidate isprintable data) offsets of
        None \<Rightarrow> record
      | Some offset \<Rightarrow> the (scan_at isprintable cal data offset record))"
proof (induction offsets)
  case Nil
  show ?case by simp
next
  case (Cons offset rest)
  show ?case
  proof (cases "scan_at isprintable cal data offset record")
    case None
    then have "\<not> accepted_candidate isprintable data offset"
      using scan_at_accepts [of isprintable cal data offset "record"] by simp
    with None Cons.IH show ?thesis by simp
  next
    case (Some found)
    then have "accepted_candidate isprintable data offset"
      using scan_at_accepts [of isprintable cal data offset "record"] by simp
    with Some show ?thesis by simp
  qed
qed

lemma py_range_members:
  "o' \<in> set (py_range start stop 8) \<longleftrightarrow> start \<le> o' \<and> o' < stop \<and> 8 dvd (o' - start)"
proof (induction start stop "8 :: nat" rule: py_range.induct)
  case (1 start stop)
  show ?case
  proof (cases "start < stop")
    case False
    then show ?thesis
      by (subst py_range.simps) auto
  next
    case True
    have "o' \<in> set (py_range start stop 8) \<longleftrightarrow> o' = start \<or> o' \<in> set (py_range (start + 8) stop 8)"
      using True by (subst py_range.simps) simp
    also have "\<dots> \<longleftrightarrow> o' = start \<or> (start + 8 \<le> o' \<and> o' < stop \<and> 8 dvd (o' - (start + 8)))"
      using "1.hyps" True by simp
    also have "\<dots> \<longleftrightarrow> start \<le> o' \<and> o' < stop \<and> 8 dvd (o' - start)"
    proof (cases "o' = start")
      case True
      with \<open>start < stop\<close> show ?thesis by simp
    next
      case False
      have "start + 8 \<le> o' \<and> 8 dvd (o' - (start + 8)) \<longleftrightarrow> start \<le> o' \<and> 8 dvd (o' - start)"
      proof
        assume a: "start + 8 \<le> o' \<and> 8 dvd (o' - (start + 8))"
        then obtain k where "o' - (start + 8) = 8 * k"
          by (auto simp: dvd_def)
        with a have "o' - start = 8 * (k + 1)"
          by simp
        then have "8 dvd (o' - start)"
          by (simp only: dvd_triv_left)
        with a show "start \<le> o' \<and> 8 dvd (o' - start)"
          by simp
      next
        assume a: "start \<le> o' \<and> 8 dvd (o' - start)"
        then obtain k where k: "o' - start = 8 * k"
          by (auto simp: dvd_def)
        with a False have "k \<noteq> 0"
          by (cases k) auto
        then obtain j where "k = Suc j"
          by (cases k) auto
        with k a have "start + 8 \<le> o'" and "o' - (start + 8) = 8 * j"
          by simp_all
        then show "start + 8 \<le> o' \<and> 8 dvd (o' - (start + 8))"
          by simp
      qed
      with False show ?thesis by auto
    qed
    finally show ?thesis .
  qed
qed

lemma py_range_sorted: "sorted (py_range start stop 8) \<and> distinct (py_range start stop 8)"
proof (induction start stop "8 :: nat" rule: py_range.induct)
  case (1 start stop)
  show ?case
  proof (cases "start < stop")
    case False
    then show ?thesis
      by (subst (1 2) py_range.simps) simp
  next
    case True
    have "py_range start stop 8 = start # py_range (start + 8) stop 8"
      using True by (subst py_range.simps) simp
    moreover have "\<forall>x\<in>set (py_range (start + 8) stop 8). start < x"
      by (simp add: py_range_members)
    ultimately show ?thesis
      using "1.hyps" True by (auto simp: less_imp_le)
  qed
qed

lemma wide_parent_facts:
  "py_range 0 (length wide_parent_payload - 0x44) 8 = [0]"
  "unat (wide_parent_payload ! 0x41) = 1"
  "unat (wide_parent_payload ! 0x40) = 1"
  "candidate_name wide_parent_payload 0 = [0x41]"
  "from_bytes_little (slice wide_parent_payload 0 8) mod 2 ^ 48 = 2 ^ 36"
  by (simp_all add: wide_parent_payload_def py_range.simps nth_append candidate_name_def
        slice_def decode_ignore_def)

lemma second_probe_facts:
  "py_range 0 (length second_probe_payload - 0x44) 8 = [0, 8]"
  "unat (second_probe_payload ! 0x40) = 0"
  "unat (second_probe_payload ! 0x48) = 1"
  "unat (second_probe_payload ! 0x49) = 1"
  "length second_probe_payload = 80"
  "candidate_name second_probe_payload 8 = [0x41]"
  "from_bytes_little (slice second_probe_payload 8 16) = 5"
  by (simp_all add: second_probe_payload_def py_range.simps nth_append candidate_name_def
        slice_def decode_ignore_def)

lemma other_payload_facts:
  "py_range 0 (length tab_name_payload - 0x44) 8 = [0]"
  "unat (tab_name_payload ! 0x41) = 1"
  "unat (tab_name_payload ! 0x40) = 1"
  "length tab_name_payload = 72"
  "candidate_name tab_name_payload 0 = [0x09]"
  "from_bytes_little (slice tab_name_payload 0 8) = 5"
  "py_range 0 (length long_name_payload - 0x44) 8 = [0]"
  "unat (long_name_payload ! 0x41) = 1"
  "unat (long_name_payload ! 0x40) = 4"
  "length long_name_payload = 72"
  "candidate_name long_name_payload 0 = [0x41, 0x41, 0x41]"
  "from_bytes_little (slice long_name_payload 0 8) = 5"
  "py_range 0 (length surrogate_name_payload - 0x44) 8 = [0]"
  "unat (surrogate_name_payload ! 0x41) = 1"
  "unat (surrogate_name_payload ! 0x40) = 1"
  "length surrogate_name_payload = 72"
  "candidate_name surrogate_name_payload 0 = []"
  "from_bytes_little (slice surrogate_name_payload 0 8) = 5"
  by (simp_all add: tab_name_payload_def long_name_payload_def surrogate_name_payload_def
        py_range.simps nth_append candidate_name_def slice_def decode_ignore_def on_error_def)

lemma scan_single_probe:
  assumes "py_range 0 (length data - 0x44) 8 = [0]"
  shows "scan_for_filename isprintable cal record data =
           (if accepted_candidate isprintable data 0
            then the (scan_at isprintable cal data 0 record) else record)"
proof -
  have "\<not> length data < 0x44"
    using assms by (subst (asm) py_range.simps) (simp split: if_splits)
  then show ?thesis
    by (simp add: scan_for_filename_def assms scan_loop_find)
qed

lemma probed_offsets:
  "offset \<in> set (py_range 0 (length data - 0x44) 8)
     \<longleftrightarrow> 8 dvd offset \<and> offset + 0x44 < length data"
  by (auto simp: py_range_members)

text \<open>
  C7 (as amended). The fallback scan probes the payload at 8-byte-aligned offsets, in
  ascending order, and stops at the first probed offset that holds an accepted
  candidate: namespace byte at most 3, name length between 1 and 255, name inside the
  payload, decoded name not empty and made of characters that are printable or a
  space, full stop or tab, and entry portion of the parent reference below \<open>2^36\<close>.
  The record then carries that candidate's name and parent reference; with no
  accepted candidate among the probed offsets the record is unchanged.
\<close>

theorem fallback_scan_first_accepted:
  "(case find (accepted_candidate isprintable data) (py_range 0 (length data - 0x44) 8) of
      None \<Rightarrow> scan_for_filename isprintable cal record data = record
    | Some offset \<Rightarrow>
        lr_filename (scan_for_filename isprintable cal record data) = candidate_name data offset
        \<and> lr_parent_reference (scan_for_filename isprintable cal record data)
            = from_bytes_little (slice data offset (offset + 8)))
   \<and> (\<forall>offset\<in>set (py_range 0 (length data - 0x44) 8). 8 dvd offset)
   \<and> sorted (py_range 0 (length data - 0x44) 8)"
proof (intro conjI ballI)
  have e: "scan_for_filename isprintable cal record data
             = scan_loop isprintable cal data (py_range 0 (length data - 0x44) 8) record"
  proof (cases "length data < 0x44")
    case True
    then have "py_range 0 (length data - 0x44) 8 = []"
      by (subst py_range.simps) simp
    with True show ?thesis
      by (simp add: scan_for_filename_def)
  next
    case False
    then show ?thesis
      by (simp add: scan_for_filename_def)
  qed
  show "case find (accepted_candidate isprintable data) (py_range 0 (length data - 0x44) 8) of
      None \<Rightarrow> scan_for_filename isprintable cal record data = record
    | Some offset \<Rightarrow>
        lr_filename (scan_for_filename isprintable cal record data) = candidate_name data offset
        \<and> lr_parent_reference (scan_for_filename isprintable cal record data)
            = from_bytes_little (slice data offset (offset + 8))"
  proof (cases "find (accepted_candidate isprintable data) (py_range 0 (length data - 0x44) 8)")
    case None
    then show ?thesis
      by (simp add: e scan_loop_find)
  next
    case (Some offset)
    then have "accepted_candidate isprintable data offset"
      by (auto simp: find_Some_iff)
    then obtain found where f: "scan_at isprintable cal data offset record = Some found"
      using scan_at_accepts [of isprintable cal data offset "record"] by auto
    with Some show ?thesis
      by (simp add: e scan_loop_find scan_at_fields [OF f])
  qed
next
  fix offset
  assume "offset \<in> set (py_range 0 (length data - 0x44) 8)"
  then show "8 dvd offset"
    by (simp add: py_range_members)
next
  show "sorted (py_range 0 (length data - 0x44) 8)"
    by (simp add: py_range_sorted)
qed

theorem fallback_scan_first_accepted_witness:
  "find (accepted_candidate ascii_printable second_probe_payload)
     (py_range 0 (length second_probe_payload - 0x44) 8) = Some 8
   \<and> py_range 0 (length second_probe_payload - 0x44) 8 = [0, 8]
   \<and> lr_filename (scan_for_filename ascii_printable plain_calendar LogRecord second_probe_payload)
       = [0x41]
   \<and> lr_parent_reference
         (scan_for_filename ascii_printable plain_calendar LogRecord second_probe_payload) = 5"
proof -
  have r: "\<not> accepted_candidate ascii_printable second_probe_payload 0"
    by (simp add: accepted_candidate_def second_probe_facts)
  have a: "accepted_candidate ascii_printable second_probe_payload 8"
    by (simp add: accepted_candidate_def second_probe_facts ascii_printable_def)
  have f: "find (accepted_candidate ascii_printable second_probe_payload)
             (py_range 0 (length second_probe_payload - 0x44) 8) = Some 8"
    unfolding second_probe_facts(1) using r a by simp
  from fallback_scan_first_accepted
         [of ascii_printable plain_calendar LogRecord second_probe_payload]
  have "lr_filename (scan_for_filename ascii_printable plain_calendar LogRecord
                       second_probe_payload) = [0x41]"
    and "lr_parent_reference (scan_for_filename ascii_printable plain_calendar LogRecord
                       second_probe_payload) = 5"
    unfolding f by (simp_all add: second_probe_facts)
  with f second_probe_facts(1) show ?thesis by blast
qed

lemma wide_parent_rejected:
  "scan_for_filename ascii_printable plain_calendar LogRecord wide_parent_payload = LogRecord"
proof -
  have "\<not> accepted_candidate ascii_printable wide_parent_payload 0"
    using wide_parent_facts(5) by (simp add: accepted_candidate_def)
  then show ?thesis
    by (simp add: scan_single_probe [OF wide_parent_facts(1)])
qed

lemma tab_name_accepted:
  "lr_filename (scan_for_filename ascii_printable plain_calendar LogRecord tab_name_payload)
     = [0x09]"
proof -
  have a: "accepted_candidate ascii_printable tab_name_payload 0"
    by (simp add: accepted_candidate_def other_payload_facts)
  then obtain found where
      f: "scan_at ascii_printable plain_calendar tab_name_payload 0 LogRecord = Some found"
    using scan_at_accepts [of ascii_printable plain_calendar tab_name_payload 0 LogRecord]
    by auto
  show ?thesis
    using a f scan_at_fields(1) [OF f]
    by (simp add: scan_single_probe [OF other_payload_facts(1)] other_payload_facts)
qed

lemma long_name_rejected:
  "scan_for_filename ascii_printable plain_calendar LogRecord long_name_payload = LogRecord"
proof -
  have "\<not> accepted_candidate ascii_printable long_name_payload 0"
    by (simp add: accepted_candidate_def other_payload_facts)
  then show ?thesis
    by (simp add: scan_single_probe [OF other_payload_facts(7)])
qed

lemma surrogate_name_rejected:
  "scan_for_filename ascii_printable plain_calendar LogRecord surrogate_name_payload = LogRecord"
proof -
  have "\<not> accepted_candidate ascii_printable surrogate_name_payload 0"
    by (simp add: accepted_candidate_def other_payload_facts)
  then show ?thesis
    by (simp add: scan_single_probe [OF other_payload_facts(13)])
qed

text \<open>
  Four payloads with a single probed candidate, at offset 0, with namespace 1. With
  name \<open>A\<close> and parent entry \<open>2^36\<close>, which is below \<open>2^40\<close>, the scan does not
  accept it. With parent entry 5 and a tab as name, which is not printable, the scan
  accepts it. With parent entry 5 and name length 4 in a payload that has room for
  the three characters \<open>AAA\<close> only, the scan does not accept it. With parent entry 5
  and a lone surrogate as name, whose decoding is the empty string, the scan does not
  accept it.
\<close>

theorem fallback_scan_departures:
  "(py_range 0 (length wide_parent_payload - 0x44) 8 = [0]
    \<and> unat (wide_parent_payload ! 0x41) = 1
    \<and> unat (wide_parent_payload ! 0x40) = 1
    \<and> candidate_name wide_parent_payload 0 = [0x41]
    \<and> ascii_printable 0x41
    \<and> from_bytes_little (slice wide_parent_payload 0 8) mod 2 ^ 48 = 2 ^ 36
    \<and> (2 :: nat) ^ 36 < 2 ^ 40
    \<and> scan_for_filename ascii_printable plain_calendar LogRecord wide_parent_payload = LogRecord)
   \<and> (py_range 0 (length tab_name_payload - 0x44) 8 = [0]
    \<and> unat (tab_name_payload ! 0x41) = 1
    \<and> unat (tab_name_payload ! 0x40) = 1
    \<and> candidate_name tab_name_payload 0 = [0x09]
    \<and> \<not> ascii_printable 0x09
    \<and> from_bytes_little (slice tab_name_payload 0 8) = 5
    \<and> lr_filename (scan_for_filename ascii_printable plain_calendar LogRecord tab_name_payload)
        = [0x09])
   \<and> (py_range 0 (length long_name_payload - 0x44) 8 = [0]
    \<and> unat (long_name_payload ! 0x41) = 1
    \<and> unat (long_name_payload ! 0x40) = 4
    \<and> length long_name_payload = 72
    \<and> candidate_name long_name_payload 0 = [0x41, 0x41, 0x41]
    \<and> from_bytes_little (slice long_name_payload 0 8) = 5
    \<and> scan_for_filename ascii_printable plain_calendar LogRecord long_name_payload = LogRecord)
   \<and> (py_range 0 (length surrogate_name_payload - 0x44) 8 = [0]
    \<and> unat (surrogate_name_payload ! 0x41) = 1
    \<and> unat (surrogate_name_payload ! 0x40) = 1
    \<and> candidate_name surrogate_name_payload 0 = []
    \<and> from_bytes_little (slice surrogate_name_payload 0 8) = 5
    \<and> scan_for_filename ascii_printable plain_calendar LogRecord surrogate_name_payload
        = LogRecord)"
proof -
  have p: "ascii_printable 0x41" "(2 :: nat) ^ 36 < 2 ^ 40" "\<not> ascii_printable 0x09"
    by (simp_all add: ascii_printable_def)
  have a: "py_range 0 (length wide_parent_payload - 0x44) 8 = [0]
    \<and> unat (wide_parent_payload ! 0x41) = 1
    \<and> unat (wide_parent_payload ! 0x40) = 1
    \<and> candidate_name wide_parent_payload 0 = [0x41]
    \<and> ascii_printable 0x41
    \<and> from_bytes_little (slice wide_parent_payload 0 8) mod 2 ^ 48 = 2 ^ 36
    \<and> (2 :: nat) ^ 36 < 2 ^ 40
    \<and> scan_for_filename ascii_printable plain_calendar LogRecord wide_parent_payload = LogRecord"
    using wide_parent_facts wide_parent_rejected p by blast
  have b: "py_range 0 (length tab_name_payload - 0x44) 8 = [0]
    \<and> unat (tab_name_payload ! 0x41) = 1
    \<and> unat (tab_name_payload ! 0x40) = 1
    \<and> candidate_name tab_name_payload 0 = [0x09]
    \<and> \<not> ascii_printable 0x09
    \<and> from_bytes_little (slice tab_name_payload 0 8) = 5
    \<and> lr_filename (scan_for_filename ascii_printable plain_calendar LogRecord tab_name_payload)
        = [0x09]"
    using other_payload_facts(1,2,3,5,6) tab_name_accepted p(3) by blast
  have c: "py_range 0 (length long_name_payload - 0x44) 8 = [0]
    \<and> unat (long_name_payload ! 0x41) = 1
    \<and> unat (long_name_payload ! 0x40) = 4
    \<and> length long_name_payload = 72
    \<and> candidate_name long_name_payload 0 = [0x41, 0x41, 0x41]
    \<and> from_bytes_little (slice long_name_payload 0 8) = 5
    \<and> scan_for_filename ascii_printable plain_calendar LogRecord long_name_payload = LogRecord"
    using other_payload_facts(7,8,9,10,11,12) long_name_rejected by blast
  have d: "py_range 0 (length surrogate_name_payload - 0x44) 8 = [0]
    \<and> unat (surrogate_name_payload ! 0x41) = 1
    \<and> unat (surrogate_name_payload ! 0x40) = 1
    \<and> candidate_name surrogate_name_payload 0 = []
    \<and> from_bytes_little (slice surrogate_name_payload 0 8) = 5
    \<and> scan_for_filename ascii_printable plain_calendar LogRecord surrogate_name_payload
        = LogRecord"
    using other_payload_facts(13,14,15,17,18) surrogate_name_rejected by blast
  from a b c d show ?thesis by blast
qed

subsection \<open>The journal scanner\<close>

lemma zero_end_positive:
  assumes "60 \<le> length buffer" and "slice buffer 0 8 = replicate 8 0"
  shows "0 < ((case find (\<lambda>i. slice buffer i (i + 8) \<noteq> replicate 8 0)
                      (py_range 0 (length buffer - 8) 8) of
                 Some i \<Rightarrow> i | None \<Rightarrow> length buffer) div 8) * 8"
    and "((case find (\<lambda>i. slice buffer i (i + 8) \<noteq> replicate 8 0)
                      (py_range 0 (length buffer - 8) 8) of
                 Some i \<Rightarrow> i | None \<Rightarrow> length buffer) div 8) * 8 \<le> length buffer"
proof -
  let ?found = "find (\<lambda>i. slice buffer i (i + 8) \<noteq> replicate 8 0)
                  (py_range 0 (length buffer - 8) 8)"
  let ?x = "case ?found of Some i \<Rightarrow> i | None \<Rightarrow> length buffer"
  have "8 \<le> ?x \<and> ?x \<le> length buffer"
  proof (cases ?found)
    case None
    then show ?thesis
      using assms(1) by simp
  next
    case (Some i)
    then have m: "i \<in> set (py_range 0 (length buffer - 8) 8)"
        and p: "slice buffer i (i + 8) \<noteq> replicate 8 0"
      by (auto simp: find_Some_iff)
    from m have r: "i < length buffer - 8" "8 dvd i"
      by (simp_all add: py_range_members)
    from p assms(2) have "i \<noteq> 0"
      by (cases "i = 0") auto
    with r(2) have "8 \<le> i"
      by (auto simp: dvd_def)
    with r(1) Some show ?thesis
      by simp
  qed
  then show "0 < (?x div 8) * 8" and "(?x div 8) * 8 \<le> length buffer"
    by presburger+
qed

lemma resync_found:
  assumes "find (plausible_header buffer) (py_range 8 (length buffer - 8) 8) = Some i"
  shows "8 dvd i" and "i \<le> length buffer"
proof -
  from assms have "i \<in> set (py_range 8 (length buffer - 8) 8)"
    by (auto simp: find_Some_iff)
  then have r: "8 \<le> i" "i < length buffer - 8" "8 dvd (i - 8)"
    by (simp_all add: py_range_members)
  from r(1,3) show "8 dvd i"
    by (metis dvd_add_triv_right_iff le_add_diff_inverse2)
  from r(2) show "i \<le> length buffer"
    by simp
qed

text \<open>What a round of the inner loop does on a buffer of at least 60 bytes.\<close>

lemma inner_body_move:
  assumes "60 \<le> length buffer" and "inner_body cal skip_zeros buffer = (move, buffer', continue)"
  shows "buffer' = drop (advance move) buffer"
    and "advance move \<le> length buffer"
    and "aligned_move move \<Longrightarrow> 8 dvd advance move"
    and "\<forall>d. move \<noteq> AllZero d"
    and "move = Record n r \<Longrightarrow> r = parse_record cal (take n buffer) \<and> n \<le> length buffer"
proof -
  let ?zero_end = "((case find (\<lambda>i. slice buffer i (i + 8) \<noteq> replicate 8 0)
                      (py_range 0 (length buffer - 8) 8) of
                 Some i \<Rightarrow> i | None \<Rightarrow> length buffer) div 8) * 8"
  let ?len = "from_bytes_little (slice buffer 0 4)"
  consider (zeros) "skip_zeros \<and> slice buffer 0 8 = replicate 8 0"
    | (resync) i where "\<not> (skip_zeros \<and> slice buffer 0 8 = replicate 8 0)"
        "?len < 60 \<or> ?len > 65536"
        "find (plausible_header buffer) (py_range 8 (length buffer - 8) 8) = Some i"
    | (failed) "\<not> (skip_zeros \<and> slice buffer 0 8 = replicate 8 0)"
        "?len < 60 \<or> ?len > 65536"
        "find (plausible_header buffer) (py_range 8 (length buffer - 8) 8) = None"
    | (more) "\<not> (skip_zeros \<and> slice buffer 0 8 = replicate 8 0)"
        "\<not> (?len < 60 \<or> ?len > 65536)" "length buffer < ?len"
    | (rec) "\<not> (skip_zeros \<and> slice buffer 0 8 = replicate 8 0)"
        "\<not> (?len < 60 \<or> ?len > 65536)" "\<not> length buffer < ?len"
    by (cases "find (plausible_header buffer) (py_range 8 (length buffer - 8) 8)") auto
  then have "buffer' = drop (advance move) buffer \<and> advance move \<le> length buffer
      \<and> (aligned_move move \<longrightarrow> 8 dvd advance move) \<and> (\<forall>d. move \<noteq> AllZero d)
      \<and> (move = Record n r \<longrightarrow> r = parse_record cal (take n buffer) \<and> n \<le> length buffer)"
  proof cases
    case zeros
    then have z: "slice buffer 0 8 = replicate 8 0"
      by simp
    have m: "move = ZeroSkip ?zero_end" "buffer' = drop ?zero_end buffer"
      using assms(2) zeros zero_end_positive(1) [OF assms(1) z]
      by (simp_all add: inner_body_def Let_def)
    show ?thesis
      using m zero_end_positive(2) [OF assms(1) z] by simp
  next
    case (resync i)
    have m: "move = Resync i" "buffer' = drop i buffer"
      using assms(2) resync by (auto simp: inner_body_def Let_def MIN_RECORD_SIZE_V2_def)
    show ?thesis
      using m resync_found [OF resync(3)] by simp
  next
    case failed
    have m: "move = ResyncFailed (length buffer - 60)" "buffer' = drop (length buffer - 60) buffer"
      using assms(2) failed by (auto simp: inner_body_def Let_def MIN_RECORD_SIZE_V2_def)
    show ?thesis
      using m by simp
  next
    case more
    have m: "move = NeedMore" "buffer' = buffer"
      using assms(2) more by (auto simp: inner_body_def Let_def MIN_RECORD_SIZE_V2_def)
    show ?thesis
      using m by simp
  next
    case rec
    have m: "move = Record ?len (parse_record cal (take ?len buffer))"
        "buffer' = drop ?len buffer"
      using assms(2) rec by (auto simp: inner_body_def Let_def MIN_RECORD_SIZE_V2_def)
    show ?thesis
      using m rec(3) by auto
  qed
  then show "buffer' = drop (advance move) buffer"
    and "advance move \<le> length buffer"
    and "aligned_move move \<Longrightarrow> 8 dvd advance move"
    and "\<forall>d. move \<noteq> AllZero d"
    and "move = Record n r \<Longrightarrow> r = parse_record cal (take n buffer) \<and> n \<le> length buffer"
    by simp_all
qed

lemma window_initial: "window f (initial f)"
  by (simp add: window_def initial_def)

lemma scan_step_quiet:
  assumes "scan_step cal skip_zeros s = (None, s')"
  shows "sc_processed s' = sc_processed s" and "window f s \<Longrightarrow> window f s'"
  using assms
  by (auto simp: scan_step_def window_def Let_def split: phase.splits if_splits prod.splits)

lemma scan_step_move:
  assumes "scan_step cal skip_zeros s = (Some move, s')"
  shows "sc_processed s' = sc_processed s + advance move"
    and "window f s \<Longrightarrow> window f s'"
    and "aligned_move move \<Longrightarrow> 8 dvd advance move"
    and "\<forall>d. move \<noteq> AllZero d"
    and "window f s \<Longrightarrow> move = Record n r \<Longrightarrow>
           r = parse_record cal (slice f (sc_processed s) (sc_processed s + n))
           \<and> sc_processed s + n \<le> length f"
proof -
  from assms obtain buffer' continue where
      l: "60 \<le> length (sc_buffer s)"
      and b: "inner_body cal skip_zeros (sc_buffer s) = (move, buffer', continue)"
      and s': "s' = s\<lparr>sc_phase := (if continue then Scanning else Reading),
                       sc_buffer := buffer',
                       sc_processed := sc_processed s + advance move\<rparr>"
    by (auto simp: scan_step_def Let_def MIN_RECORD_SIZE_V2_def
             split: phase.splits if_splits prod.splits)
  note f = inner_body_move [OF l b]
  show "sc_processed s' = sc_processed s + advance move"
    by (simp add: s')
  show "aligned_move move \<Longrightarrow> 8 dvd advance move"
    by (rule f(3))
  show "\<forall>d. move \<noteq> AllZero d"
    by (rule f(4))
  show "window f s \<Longrightarrow> window f s'"
  proof -
    assume w: "window f s"
    have "buffer' @ sc_rest s = drop (advance move) (sc_buffer s @ sc_rest s)"
      using f(1,2) by simp
    also have "\<dots> = drop (sc_processed s + advance move) f"
      using w by (simp add: window_def add.commute)
    finally show "window f s'"
      by (simp add: window_def s')
  qed
  show "window f s \<Longrightarrow> move = Record n r \<Longrightarrow>
           r = parse_record cal (slice f (sc_processed s) (sc_processed s + n))
           \<and> sc_processed s + n \<le> length f"
  proof -
    assume w: "window f s" and m: "move = Record n r"
    from f(5) [OF m] have r: "r = parse_record cal (take n (sc_buffer s))"
        and n: "n \<le> length (sc_buffer s)"
      by simp_all
    have "take n (sc_buffer s) = take n (sc_buffer s @ sc_rest s)"
      using n by simp
    also have "\<dots> = slice f (sc_processed s) (sc_processed s + n)"
      using w by (simp add: window_def slice_def)
    finally have t: "take n (sc_buffer s) = slice f (sc_processed s) (sc_processed s + n)" .
    have "length (sc_buffer s) \<le> length (drop (sc_processed s) f)"
      using w by (metis window_def length_append le_add1)
    with n l have "sc_processed s + n \<le> length f"
      by simp
    with r t show ?thesis
      by simp
  qed
qed

lemma moves_aligned:
  "8 dvd sc_processed s \<Longrightarrow> aligned_until (moves cal skip_zeros n s)"
proof (induction n arbitrary: s)
  case 0
  show ?case by simp
next
  case (Suc n)
  obtain m s' where st: "scan_step cal skip_zeros s = (m, s')"
    by (cases "scan_step cal skip_zeros s")
  show ?case
  proof (cases m)
    case None
    then show ?thesis
      using st Suc scan_step_quiet(1) [of cal skip_zeros s s'] by simp
  next
    case (Some move)
    have "aligned_move move \<Longrightarrow> aligned_until (moves cal skip_zeros n s')"
    proof -
      assume "aligned_move move"
      then have "8 dvd sc_processed s'"
        using scan_step_move(1,3) [of cal skip_zeros s move s'] st Some Suc.prems by simp
      then show ?thesis
        by (rule Suc.IH)
    qed
    then show ?thesis
      using st Some Suc.prems by simp
  qed
qed

lemma moves_read_the_file:
  "window f s \<Longrightarrow> (position, move) \<in> set (moves cal skip_zeros n s) \<Longrightarrow>
     (\<forall>d. move \<noteq> AllZero d)
     \<and> (\<forall>k r. move = Record k r \<longrightarrow>
           r = parse_record cal (slice f position (position + k)) \<and> position + k \<le> length f)"
proof (induction n arbitrary: s)
  case 0
  then show ?case by simp
next
  case (Suc n)
  obtain m s' where st: "scan_step cal skip_zeros s = (m, s')"
    by (cases "scan_step cal skip_zeros s")
  show ?case
  proof (cases m)
    case None
    then have "window f s'" and "(position, move) \<in> set (moves cal skip_zeros n s')"
      using st Suc.prems scan_step_quiet(2) [of cal skip_zeros s s' f] by simp_all
    then show ?thesis
      by (rule Suc.IH)
  next
    case (Some mv)
    have w: "window f s'"
      using scan_step_move(2) [of cal skip_zeros s mv s' f] st Some Suc.prems(1) by simp
    from Suc.prems(2) st Some
    consider "position = sc_processed s" "move = mv"
      | "(position, move) \<in> set (moves cal skip_zeros n s')"
      by auto
    then show ?thesis
    proof cases
      case 1
      show ?thesis
        using scan_step_move(4) [of cal skip_zeros s mv s']
          scan_step_move(5) [of cal skip_zeros s mv s' f] st Some Suc.prems(1) 1
        by auto
    next
      case 2
      with w show ?thesis
        by (rule Suc.IH)
    qed
  qed
qed

lemma yielded_members:
  "(position, r) \<in> set (yielded trace) \<Longrightarrow> \<exists>k. (position, Record k (Some r)) \<in> set trace"
  by (induction trace rule: yielded.induct) auto

lemma aligned_positions:
  "aligned_until trace \<Longrightarrow> list_all (\<lambda>(position, move). aligned_move move) trace \<Longrightarrow>
     (position, move) \<in> set trace \<Longrightarrow> 8 dvd position"
  by (induction trace) auto

text \<open>Steps of the machine.\<close>

lemma read_step:
  assumes "sc_phase s = Reading" and "sc_rest s \<noteq> []" and "length (sc_rest s) \<le> BUFFER_SIZE"
  shows "scan_step cal skip_zeros s =
           (None, s\<lparr>sc_phase := Scanning, sc_rest := [], sc_buffer := sc_buffer s @ sc_rest s\<rparr>)"
  using assms by (simp add: scan_step_def Let_def)

lemma end_step:
  assumes "sc_phase s = Reading" and "sc_rest s = []"
  shows "scan_step cal skip_zeros s = (None, s\<lparr>sc_phase := Finished\<rparr>)"
  using assms by (simp add: scan_step_def Let_def)

lemma short_buffer_step:
  assumes "sc_phase s = Scanning" and "length (sc_buffer s) < 60"
  shows "scan_step cal skip_zeros s = (None, s\<lparr>sc_phase := Reading\<rparr>)"
  using assms by (simp add: scan_step_def MIN_RECORD_SIZE_V2_def)

lemma body_step:
  assumes "sc_phase s = Scanning" and "60 \<le> length (sc_buffer s)"
    and "inner_body cal skip_zeros (sc_buffer s) = (move, buffer, True)"
  shows "scan_step cal skip_zeros s =
           (Some move, s\<lparr>sc_phase := Scanning, sc_buffer := buffer,
                          sc_processed := sc_processed s + advance move\<rparr>)"
  using assms by (simp add: scan_step_def MIN_RECORD_SIZE_V2_def)

lemma not_zeros:
  assumes "buffer \<noteq> []" and "hd buffer \<noteq> 0"
  shows "slice buffer 0 8 \<noteq> replicate 8 (0 :: byte)"
proof
  assume "slice buffer 0 8 = replicate 8 (0 :: byte)"
  then have "hd (take 8 buffer) = hd (replicate 8 (0 :: byte))"
    by (simp add: slice_def)
  with assms show False
    by (cases buffer) (simp_all add: numeral_eq_Suc)
qed

lemma record_round:
  assumes "hd buffer \<noteq> 0" and "from_bytes_little (slice buffer 0 4) = k"
    and "60 \<le> k" and "k \<le> 65536" and "k \<le> length buffer"
  shows "inner_body cal skip_zeros buffer
           = (Record k (parse_record cal (take k buffer)), drop k buffer, True)"
proof -
  have "buffer \<noteq> []"
    using assms(3,5) by auto
  then have "slice buffer 0 8 \<noteq> replicate 8 0"
    using assms(1) by (rule not_zeros)
  then show ?thesis
    using assms(2-5) by (simp add: inner_body_def MIN_RECORD_SIZE_V2_def)
qed

lemma failed_round:
  assumes "hd buffer \<noteq> 0" and "buffer \<noteq> []" and "65536 < from_bytes_little (slice buffer 0 4)"
    and "find (plausible_header buffer) (py_range 8 (length buffer - 8) 8) = None"
  shows "inner_body cal skip_zeros buffer
           = (ResyncFailed (length buffer - 60), drop (length buffer - 60) buffer, True)"
proof -
  have "slice buffer 0 8 \<noteq> replicate 8 0"
    using assms(2,1) by (rule not_zeros)
  then show ?thesis
    using assms(3,4) by (simp add: inner_body_def MIN_RECORD_SIZE_V2_def)
qed

lemma five: "(5 :: nat) = Suc (Suc (Suc (Suc (Suc 0))))"
  by simp

lemma two_records_trace:
  assumes "length a = k" and "length b = j" and "60 \<le> k" and "k \<le> 65536"
    and "60 \<le> j" and "j \<le> 65536"
    and "hd a \<noteq> 0" and "hd b \<noteq> 0"
    and "from_bytes_little (take 4 a) = k" and "from_bytes_little (take 4 b) = j"
  shows "moves cal skip_zeros 5 (initial (a @ b))
           = [(0, Record k (parse_record cal a)), (k, Record j (parse_record cal b))]"
proof -
  let ?s1 = "\<lparr>sc_phase = Scanning, sc_rest = [], sc_buffer = a @ b, sc_processed = 0\<rparr>"
  let ?s2 = "\<lparr>sc_phase = Scanning, sc_rest = [], sc_buffer = b, sc_processed = k\<rparr>"
  let ?s3 = "\<lparr>sc_phase = Scanning, sc_rest = [], sc_buffer = [], sc_processed = k + j\<rparr>"
  let ?s4 = "\<lparr>sc_phase = Reading, sc_rest = [], sc_buffer = [], sc_processed = k + j\<rparr>"
  let ?s5 = "\<lparr>sc_phase = Finished, sc_rest = [], sc_buffer = [], sc_processed = k + j\<rparr>"
  have ne: "a \<noteq> []" "b \<noteq> []"
    using assms(1,2,3,5) by auto
  have 1: "scan_step cal skip_zeros (initial (a @ b)) = (None, ?s1)"
    using read_step [of "initial (a @ b)" cal skip_zeros] ne assms(1,2,4,6)
    by (simp add: initial_def BUFFER_SIZE_def)
  have ra: "inner_body cal skip_zeros (a @ b) = (Record k (parse_record cal a), b, True)"
    using record_round [of "a @ b" k cal skip_zeros] ne assms(1,3,4,7,9)
    by (simp add: slice_def)
  have 2: "scan_step cal skip_zeros ?s1 = (Some (Record k (parse_record cal a)), ?s2)"
    using body_step [of ?s1 cal skip_zeros "Record k (parse_record cal a)" b] ra assms(1,3)
    by simp
  have rb: "inner_body cal skip_zeros b = (Record j (parse_record cal b), [], True)"
    using record_round [of b j cal skip_zeros] ne assms(2,5,6,8,10)
    by (simp add: slice_def)
  have 3: "scan_step cal skip_zeros ?s2 = (Some (Record j (parse_record cal b)), ?s3)"
    using body_step [of ?s2 cal skip_zeros "Record j (parse_record cal b)" "[]"] rb assms(2,5)
    by simp
  have 4: "scan_step cal skip_zeros ?s3 = (None, ?s4)"
    using short_buffer_step [of ?s3 cal skip_zeros] by simp
  have 5: "scan_step cal skip_zeros ?s4 = (None, ?s5)"
    using end_step [of ?s4 cal skip_zeros] by simp
  show ?thesis
    unfolding five by (simp add: 1 2 3 4 5)
qed

lemma parse_short_record:
  "map_option u_record_length (parse_record plain_calendar short_record) = Some 60"
  "map_option u_major_version (parse_record plain_calendar short_record) = Some 2"
  by (simp_all add: parse_record_def parse_v2_record_def short_record_def slice_def Let_def
        MIN_RECORD_SIZE_V2_def UsnRecord_def)

lemma parse_aligned_record:
  "map_option u_record_length (parse_record plain_calendar aligned_record) = Some 64"
  by (simp add: parse_record_def parse_v2_record_def aligned_record_def slice_def Let_def
        MIN_RECORD_SIZE_V2_def UsnRecord_def)

lemma two_short_records_trace:
  "moves plain_calendar True 5 (initial two_short_records)
     = [(0, Record 60 (parse_record plain_calendar short_record)),
        (60, Record 60 (parse_record plain_calendar short_record))]"
  unfolding two_short_records_def
  by (rule two_records_trace) (simp_all add: short_record_def)

lemma two_aligned_records_trace:
  "moves plain_calendar True 5 (initial (aligned_record @ aligned_record))
     = [(0, Record 64 (parse_record plain_calendar aligned_record)),
        (64, Record 64 (parse_record plain_calendar aligned_record))]"
  by (rule two_records_trace) (simp_all add: aligned_record_def)

lemma garbage_facts:
  "length record_after_garbage = 128"
  "hd record_after_garbage = 0xFF"
  "from_bytes_little (slice record_after_garbage 0 4) = 4294967295"
  "drop 68 record_after_garbage = short_record"
  by (simp_all add: record_after_garbage_def short_record_def slice_def)

lemma from_bytes_little_zeros: "from_bytes_little (replicate n 0) = 0"
  by (induction n) simp_all

lemma garbage_no_header:
  "find (plausible_header record_after_garbage) (py_range 8 (length record_after_garbage - 8) 8)
     = None"
  unfolding garbage_facts(1)
  by (simp add: py_range.simps plausible_header_def record_after_garbage_def short_record_def
        slice_def MIN_RECORD_SIZE_V2_def Let_def from_bytes_little_zeros)

lemma record_after_garbage_trace:
  "moves plain_calendar True 5 (initial record_after_garbage)
     = [(0, ResyncFailed 68), (68, Record 60 (parse_record plain_calendar short_record))]"
proof -
  let ?g = record_after_garbage
  let ?s1 = "\<lparr>sc_phase = Scanning, sc_rest = [], sc_buffer = ?g, sc_processed = 0\<rparr>"
  let ?s2 = "\<lparr>sc_phase = Scanning, sc_rest = [], sc_buffer = short_record, sc_processed = 68\<rparr>"
  let ?s3 = "\<lparr>sc_phase = Scanning, sc_rest = [], sc_buffer = [], sc_processed = 128\<rparr>"
  let ?s4 = "\<lparr>sc_phase = Reading, sc_rest = [], sc_buffer = [], sc_processed = 128\<rparr>"
  have ne: "?g \<noteq> []"
    using garbage_facts(1) by auto
  have 1: "scan_step plain_calendar True (initial ?g) = (None, ?s1)"
    using read_step [of "initial ?g" plain_calendar True] ne garbage_facts(1)
    by (simp add: initial_def BUFFER_SIZE_def)
  have rf: "inner_body plain_calendar True ?g = (ResyncFailed 68, short_record, True)"
    using failed_round [of ?g plain_calendar True] ne garbage_no_header
    by (simp add: garbage_facts)
  have 2: "scan_step plain_calendar True ?s1 = (Some (ResyncFailed 68), ?s2)"
    using body_step [of ?s1 plain_calendar True "ResyncFailed 68" short_record] rf
      garbage_facts(1)
    by simp
  have rb: "inner_body plain_calendar True short_record
              = (Record 60 (parse_record plain_calendar short_record), [], True)"
    using record_round [of short_record 60 plain_calendar True]
    by (simp add: short_record_def slice_def)
  have 3: "scan_step plain_calendar True ?s2
             = (Some (Record 60 (parse_record plain_calendar short_record)), ?s3)"
    using body_step [of ?s2 plain_calendar True
            "Record 60 (parse_record plain_calendar short_record)" "[]"] rb
    by (simp add: short_record_def)
  have 4: "scan_step plain_calendar True ?s3 = (None, ?s4)"
    using short_buffer_step [of ?s3 plain_calendar True] by simp
  have 5: "scan_step plain_calendar True ?s4 = (None, ?s4\<lparr>sc_phase := Finished\<rparr>)"
    using end_step [of ?s4 plain_calendar True] by simp
  show ?thesis
    unfolding five by (simp add: 1 2 3 4 5)
qed

text \<open>
  C6 (as amended). Run for any number of steps on any file, the scanner is at a
  position that is a multiple of 8 at every move up to and including the first one
  that does not keep the alignment: the consumption of a record whose length is not a
  multiple of 8, or a failed resynchronisation that drops a number of bytes that is
  not a multiple of 8. Skipping zeros and a successful resynchronisation always
  advance by a multiple of 8. Every record consumed at a position was parsed from the
  bytes of the file at that position, and every record yielded is one of them. So
  when all the moves keep the alignment, every record yielded starts at a position
  that is a multiple of 8.
\<close>

theorem records_aligned_while_moves_aligned:
  "aligned_until (moves cal skip_zeros n (initial f))
   \<and> (\<forall>(position, move) \<in> set (moves cal skip_zeros n (initial f)).
        (\<forall>d. move \<noteq> AllZero d)
        \<and> (\<forall>k r. move = Record k r \<longrightarrow>
              r = parse_record cal (slice f position (position + k)) \<and> position + k \<le> length f))
   \<and> (\<forall>(position, r) \<in> set (iter_records cal skip_zeros n f).
        \<exists>k. (position, Record k (Some r)) \<in> set (moves cal skip_zeros n (initial f)))
   \<and> (list_all (\<lambda>(position, move). aligned_move move) (moves cal skip_zeros n (initial f)) \<longrightarrow>
        (\<forall>(position, r) \<in> set (iter_records cal skip_zeros n f). 8 dvd position))"
proof (intro conjI impI)
  have a: "aligned_until (moves cal skip_zeros n (initial f))"
    by (rule moves_aligned) (simp add: initial_def)
  show "aligned_until (moves cal skip_zeros n (initial f))"
    by (rule a)
  show "\<forall>(position, move) \<in> set (moves cal skip_zeros n (initial f)).
        (\<forall>d. move \<noteq> AllZero d)
        \<and> (\<forall>k r. move = Record k r \<longrightarrow>
              r = parse_record cal (slice f position (position + k)) \<and> position + k \<le> length f)"
    using moves_read_the_file [OF window_initial [of f]] by blast
  show y: "\<forall>(position, r) \<in> set (iter_records cal skip_zeros n f).
        \<exists>k. (position, Record k (Some r)) \<in> set (moves cal skip_zeros n (initial f))"
    using yielded_members by (fastforce simp: iter_records_def)
  assume "list_all (\<lambda>(position, move). aligned_move move) (moves cal skip_zeros n (initial f))"
  then show "\<forall>(position, r) \<in> set (iter_records cal skip_zeros n f). 8 dvd position"
    using y aligned_positions [OF a] by fastforce
qed

theorem records_aligned_while_moves_aligned_witness:
  "map fst (moves plain_calendar True 5 (initial (aligned_record @ aligned_record))) = [0, 64]
   \<and> list_all (\<lambda>(position, move). aligned_move move)
        (moves plain_calendar True 5 (initial (aligned_record @ aligned_record)))
   \<and> map fst (iter_records plain_calendar True 5 (aligned_record @ aligned_record)) = [0, 64]
   \<and> list_all (\<lambda>(position, r). 8 dvd position)
        (iter_records plain_calendar True 5 (aligned_record @ aligned_record))"
proof -
  obtain r where r: "parse_record plain_calendar aligned_record = Some r"
    using parse_aligned_record by (cases "parse_record plain_calendar aligned_record") auto
  have t: "moves plain_calendar True 5 (initial (aligned_record @ aligned_record))
             = [(0, Record 64 (Some r)), (64, Record 64 (Some r))]"
    unfolding two_aligned_records_trace r ..
  have m: "map fst (moves plain_calendar True 5 (initial (aligned_record @ aligned_record))) = [0, 64]"
    by (simp add: t)
  have l: "list_all (\<lambda>(position, move). aligned_move move)
        (moves plain_calendar True 5 (initial (aligned_record @ aligned_record)))"
    by (simp add: t)
  have i: "map fst (iter_records plain_calendar True 5 (aligned_record @ aligned_record)) = [0, 64]"
    by (simp add: iter_records_def t)
  from records_aligned_while_moves_aligned
         [of plain_calendar True 5 "aligned_record @ aligned_record"] l
  have "\<forall>(position, r) \<in> set (iter_records plain_calendar True 5 (aligned_record @ aligned_record)).
          8 dvd position"
    by blast
  then have "list_all (\<lambda>(position, r). 8 dvd position)
        (iter_records plain_calendar True 5 (aligned_record @ aligned_record))"
    by (simp add: list_all_iff)
  with m l i show ?thesis by blast
qed

text \<open>
  Two journals. Two records of 60 bytes back to back: the records yielded start at
  the positions 0 and 60. A record of 60 bytes after 68 bytes that are no record: the
  resynchronisation fails and drops 68 bytes, and the record yielded starts at
  position 68.
\<close>

theorem unaligned_records_yielded:
  "map fst (iter_records plain_calendar True 5 two_short_records) = [0, 60]
   \<and> map (u_record_length \<circ> snd) (iter_records plain_calendar True 5 two_short_records) = [60, 60]
   \<and> map fst (moves plain_calendar True 5 (initial two_short_records)) = [0, 60]
   \<and> \<not> 8 dvd (60 :: nat)
   \<and> map fst (iter_records plain_calendar True 5 record_after_garbage) = [68]
   \<and> map (u_record_length \<circ> snd) (iter_records plain_calendar True 5 record_after_garbage) = [60]
   \<and> map fst (moves plain_calendar True 5 (initial record_after_garbage)) = [0, 68]
   \<and> \<not> 8 dvd (68 :: nat)"
proof -
  obtain r where r: "parse_record plain_calendar short_record = Some r"
      and l: "u_record_length r = 60"
    using parse_short_record(1) by (cases "parse_record plain_calendar short_record") auto
  have a: "map fst (iter_records plain_calendar True 5 two_short_records) = [0, 60]"
     "map (u_record_length \<circ> snd) (iter_records plain_calendar True 5 two_short_records) = [60, 60]"
     "map fst (moves plain_calendar True 5 (initial two_short_records)) = [0, 60]"
    by (simp_all add: iter_records_def two_short_records_trace r l)
  have b: "map fst (iter_records plain_calendar True 5 record_after_garbage) = [68]"
     "map (u_record_length \<circ> snd) (iter_records plain_calendar True 5 record_after_garbage) = [60]"
     "map fst (moves plain_calendar True 5 (initial record_after_garbage)) = [0, 68]"
    by (simp_all add: iter_records_def record_after_garbage_trace r l)
  have c: "\<not> 8 dvd (60 :: nat)" "\<not> 8 dvd (68 :: nat)"
    by simp_all
  from a b c show ?thesis by blast
qed


end
